theory Spec2Isabelle
  imports Main "HOL-Library.AList"
begin

section \<open>Identifiers\<close>

text \<open>
  An \<open>Id64String\<close> is the hexadecimal rendering of a 64-bit identifier (\<open>"0x1f"\<close>);
  \<open>Id64.invalid\<close> is the string \<open>"0"\<close>. The transformer turns such strings into
  JavaScript numbers with \<open>parseInt(s, 16)\<close> and back with \<open>n.toString(16)\<close>.
\<close>

type_synonym Id64String = string

definition Id64_invalid :: Id64String where
  "Id64_invalid = ''0''"

section \<open>IModelElementCloneContext (src/unnamed/part_000)\<close>

text \<open>
  The two private maps \<open>_elementRemaps\<close> and \<open>_codeSpecRemaps\<close> of the clone context.
  A JavaScript \<open>Map\<close> from strings to strings is a partial function; \<open>Map.get\<close> of a
  missing key is \<open>undefined\<close>, here \<open>None\<close>, and \<open>x ?? d\<close> picks \<open>d\<close> exactly then.
\<close>

record IModelElementCloneContext =
  elementRemaps :: "Id64String \<rightharpoonup> Id64String"
  codeSpecRemaps :: "Id64String \<rightharpoonup> Id64String"

definition remapElement ::
  "Id64String \<Rightarrow> Id64String \<Rightarrow> IModelElementCloneContext \<Rightarrow> IModelElementCloneContext" where
  "remapElement sourceId targetId ctx =
     ctx\<lparr>elementRemaps := (elementRemaps ctx)(sourceId \<mapsto> targetId)\<rparr>"

definition removeElement ::
  "Id64String \<Rightarrow> IModelElementCloneContext \<Rightarrow> IModelElementCloneContext" where
  "removeElement sourceId ctx =
     ctx\<lparr>elementRemaps := (elementRemaps ctx)(sourceId := None)\<rparr>"

definition findTargetCodeSpecId :: "IModelElementCloneContext \<Rightarrow> Id64String \<Rightarrow> Id64String" where
  "findTargetCodeSpecId ctx sourceId =
     (if Id64_invalid = sourceId then Id64_invalid
      else (case codeSpecRemaps ctx sourceId of Some t \<Rightarrow> t | None \<Rightarrow> Id64_invalid))"

definition findTargetElementId :: "IModelElementCloneContext \<Rightarrow> Id64String \<Rightarrow> Id64String" where
  "findTargetElementId ctx sourceElementId =
     (if Id64_invalid = sourceElementId then Id64_invalid
      else (case elementRemaps ctx sourceElementId of Some t \<Rightarrow> t | None \<Rightarrow> Id64_invalid))"

section \<open>JavaScript number and string helpers\<close>

text \<open>
  A JavaScript number is an IEEE 754 double. The first version of the transformer keeps
  identifiers and counters in numbers; it makes them from integers, adds one to them and
  compares them, nothing else. A finite number is therefore kept here as the integer it
  holds. What the doubles change is which integers there are: every integer up to \<open>2^53\<close>
  in magnitude is a double, and beyond that only the multiples of a power of two that
  doubles with each binade. \<open>ulp a\<close> is that spacing at the magnitude \<open>a\<close>, and
  \<open>doubleOfInt\<close> is the rounding every conversion and every \<open>+\<close> ends with: to the nearest
  double, a tie going to the one whose significand is even. So \<open>2^53 + 1\<close> becomes \<open>2^53\<close>
  again, and a counter that has reached \<open>2^53\<close> stays there under \<open>++\<close>.
\<close>

fun ulp :: "nat \<Rightarrow> nat" where
  "ulp a = (if a < 2 ^ 53 then 1 else 2 * ulp (a div 2))"

declare ulp.simps [simp del]

definition roundNat :: "nat \<Rightarrow> nat" where
  "roundNat a =
     (let u = ulp a; q = a div u; r = a mod u
      in if 2 * r < u \<or> (2 * r = u \<and> even q) then q * u else (q + 1) * u)"

definition doubleOfInt :: "int \<Rightarrow> int" where
  "doubleOfInt n = (if n < 0 then - int (roundNat (nat (- n))) else int (roundNat (nat n)))"

text \<open>
  A number that is not \<open>NaN\<close>; an optional number stands for a number that may be \<open>NaN\<close>
  (\<open>None\<close>). On these values \<open>===\<close> is equality. \<open>toNumber\<close> is the number that an
  integer of any size becomes: a magnitude that rounds to \<open>2^1024\<close> or more is an infinity.
\<close>

datatype Number = Finite int | POSITIVE_INFINITY | NEGATIVE_INFINITY

definition toNumber :: "int \<Rightarrow> Number" where
  "toNumber v =
     (let d = doubleOfInt v
      in if 2 ^ 1024 \<le> d then POSITIVE_INFINITY
         else if d \<le> - (2 ^ 1024) then NEGATIVE_INFINITY
         else Finite d)"

text \<open>
  \<open>parseInt(s, 16)\<close> as ECMAScript defines it: leading white space is skipped, a
  sign is read, a \<open>0x\<close>/\<open>0X\<close> prefix is dropped, and the longest prefix of hexadecimal
  digits is read; with no digit the result is \<open>NaN\<close> (here \<open>None\<close>), otherwise the
  number nearest to the integer the digits denote. Only the ASCII white-space characters
  are listed.
\<close>

definition isStrWhiteSpaceChar :: "char \<Rightarrow> bool" where
  "isStrWhiteSpaceChar c = (of_char c \<in> {9, 10, 11, 12, 13, 32 :: nat})"

definition hexDigitValue :: "char \<Rightarrow> int option" where
  "hexDigitValue c =
     (let n = (of_char c :: nat) in
      if 48 \<le> n \<and> n \<le> 57 then Some (int n - 48)
      else if 97 \<le> n \<and> n \<le> 102 then Some (int n - 87)
      else if 65 \<le> n \<and> n \<le> 70 then Some (int n - 55)
      else None)"

definition parseInt16 :: "string \<Rightarrow> Number option" where
  "parseInt16 str =
     (let S = dropWhile isStrWhiteSpaceChar str;
          sign = (if S \<noteq> [] \<and> hd S = CHR ''-'' then - 1 else 1);
          S1 = (if S \<noteq> [] \<and> (hd S = CHR ''+'' \<or> hd S = CHR ''-'') then tl S else S);
          S2 = (if take 2 S1 = ''0x'' \<or> take 2 S1 = ''0X'' then drop 2 S1 else S1);
          Z = takeWhile (\<lambda>c. hexDigitValue c \<noteq> None) S2
      in if Z = [] then None
         else Some (toNumber (sign * foldl (\<lambda>acc c. 16 * acc + the (hexDigitValue c)) 0 Z)))"

text \<open>\<open>n.toString(16)\<close> for an integral number: lower-case digits, a minus sign first.\<close>

definition hexDigitChar :: "nat \<Rightarrow> char" where
  "hexDigitChar d = ''0123456789abcdef'' ! d"

fun hexDigits :: "nat \<Rightarrow> string" where
  "hexDigits n = (if n < 16 then [hexDigitChar n] else hexDigits (n div 16) @ [hexDigitChar (n mod 16)])"

declare hexDigits.simps [simp del]

definition toString16 :: "int \<Rightarrow> string" where
  "toString16 n = (if n < 0 then ''-'' @ hexDigits (nat (- n)) else hexDigits (nat n))"

section \<open>CompactRemapTable\<close>

text \<open>
  Modelled from the spec: the class \<open>CompactRemapTable\<close> is imported by
  \<open>JsPolymorphicInserter.ts\<close> from \<open>./CompactRemapTable\<close>, a file that is not among the
  sources. Its data model and its three operations follow the specification: a table is
  a list of runs \<open>(from, to, length)\<close>, each mapping every source id in
  \<open>[from, from + length)\<close> to \<open>to + (id - from)\<close>, kept sorted by \<open>from\<close> with disjoint
  source ranges.
\<close>

datatype Run = Run (run_from: int) (run_to: int) (run_length: int)

type_synonym CompactRemapTable = "Run list"

text \<open>
  Modelled from the spec: the invariant of the data model (source ranges disjoint and
  sorted by start, every run non-empty); \<open>wf_from lb\<close> also bounds the first start below.
\<close>

fun wf_from :: "int \<Rightarrow> Run list \<Rightarrow> bool" where
  "wf_from lb [] = True"
| "wf_from lb (Run f g l # rs) = (lb \<le> f \<and> 0 < l \<and> wf_from (f + l) rs)"

definition wf_runs :: "Run list \<Rightarrow> bool" where
  "wf_runs rs = (case rs of [] \<Rightarrow> True | r # _ \<Rightarrow> wf_from (run_from r) rs)"

text \<open>
  Modelled from the spec: \<open>remap(sourceId, targetId)\<close> "inserts or overwrites the mapping
  for exactly one identifier": the single-length run is put at its sorted position
  (\<open>insert_run\<close>; a run that already covers the identifier is split around it), followed
  by the coalescing of neighbours whose source and target ranges continue each other
  (\<open>coalesce\<close>), which is also how a run is extended at its end.
\<close>

fun insert_run :: "int \<Rightarrow> int \<Rightarrow> Run list \<Rightarrow> Run list" where
  "insert_run s t [] = [Run s t 1]"
| "insert_run s t (Run f g l # rs) =
     (if s < f then Run s t 1 # Run f g l # rs
      else if s < f + l then
        (if f < s then [Run f g (s - f)] else []) @ [Run s t 1] @
        (if s + 1 < f + l then [Run (s + 1) (g + (s + 1 - f)) (f + l - (s + 1))] else []) @ rs
      else Run f g l # insert_run s t rs)"

fun coalesce :: "Run list \<Rightarrow> Run list" where
  "coalesce (Run f g l # Run f' g' l' # rs) =
     (if f' = f + l \<and> g' = g + l then coalesce (Run f g (l + l') # rs)
      else Run f g l # coalesce (Run f' g' l' # rs))"
| "coalesce rs = rs"

definition remap :: "int \<Rightarrow> int \<Rightarrow> CompactRemapTable \<Rightarrow> CompactRemapTable" where
  "remap sourceId targetId table = coalesce (insert_run sourceId targetId table)"

text \<open>
  Modelled from the spec: \<open>get(sourceId)\<close> searches by run start and answers from the run
  that covers the identifier, "unmapped" (\<open>undefined\<close>, here \<open>None\<close>) when none does. The
  search relies on the order of the runs, as the binary search of the specification does.
\<close>

fun get_runs :: "int \<Rightarrow> Run list \<Rightarrow> int option" where
  "get_runs s [] = None"
| "get_runs s (Run f g l # rs) =
     (if s < f then None
      else if s < f + l then Some (g + (s - f))
      else get_runs s rs)"

definition table_get :: "CompactRemapTable \<Rightarrow> int \<Rightarrow> int option" where
  "table_get table sourceId = get_runs sourceId table"

text \<open>Modelled from the spec: \<open>runs()\<close> yields the triples in ascending source order.\<close>

definition runs :: "CompactRemapTable \<Rightarrow> Run list" where
  "runs table = table"

section \<open>The remap tables inside SQLite (JsPolymorphicInserter.ts)\<close>

text \<open>
  Each run becomes a row \<open>(SourceId, TargetId, Length)\<close> of \<open>temp.<name>_remap\<close>
  ("give sqlite the tables"). \<open>remapSql\<close> is the scalar subquery
  \<^verbatim>\<open>SELECT TargetId + (id - SourceId) FROM temp.<name>_remap
  WHERE id BETWEEN SourceId AND SourceId + Length - 1\<close>:
  its value is taken from the first row that satisfies the condition and is \<open>NULL\<close>
  (\<open>None\<close>) when no row does, or when the identifier expression is itself \<open>NULL\<close>.
\<close>

definition giveSqliteTheTable :: "CompactRemapTable \<Rightarrow> Run list" where
  "giveSqliteTheTable table = runs table"

definition remapSql :: "int option \<Rightarrow> Run list \<Rightarrow> int option" where
  "remapSql idExpr remap_rows =
     (case idExpr of
        None \<Rightarrow> None
      | Some i \<Rightarrow>
          (case filter (\<lambda>r. run_from r \<le> i \<and> i \<le> run_from r + run_length r - 1) remap_rows of
             [] \<Rightarrow> None
           | r # _ \<Rightarrow> Some (run_to r + (i - run_from r))))"

text \<open>
  \<open>makeGetter\<close>: the lookup functions handed out as the \<open>Remapper\<close>. The table is asked
  for the number that \<open>parseInt\<close> made of the identifier; \<open>NaN\<close> and the infinities are
  covered by no run.
\<close>

definition makeGetter :: "CompactRemapTable \<Rightarrow> Id64String \<Rightarrow> Id64String" where
  "makeGetter table ident =
     (let targetIntId = (case parseInt16 ident of
                           Some (Finite n) \<Rightarrow> table_get table n
                         | _ \<Rightarrow> None)
      in case targetIntId of
           None \<Rightarrow> ''0''
         | Some v \<Rightarrow> if v = 0 then ''0'' else ''0x'' @ toString16 v)"

section \<open>Identifier allocation (JsPolymorphicInserter.ts, CompactRemapTable version)\<close>

text \<open>
  The source file holds two versions of \<open>rawEmulatedPolymorphicInsertTransform\<close>. The
  first (lines 1 to 766) allocates identifiers up front into \<open>CompactRemapTable\<close>s and
  bulk-inserts with SQL; the second (from line 767) populates and then hydrates row by
  row. This section and the next two follow the first version.

  An exception (a failed \<open>assert\<close>, the \<open>ReferenceError\<close> of reading a name that is
  bound nowhere, an error thrown by the store) is a value of type \<open>error\<close>;
  \<open>ReferenceError\<close> carries the name, \<open>ThrownError\<close> the message of the error.
\<close>

datatype error = AssertionError | ReferenceError string | ThrownError string

text \<open>
  The element pass: every row of \<open>sourceElemRemapSelect\<close> gets the next value of
  \<open>_nextElemId\<close> (\<open>useElemIdRaw\<close> is a post-increment, an addition of numbers). The row
  holds the identifier as an \<open>Id64String\<close>, and \<open>parseInt(sourceId, 16)\<close> of the
  hexadecimal text of an identifier is the number nearest to it (\<open>parseInt16_hexDigits\<close>
  below). The state is the element table with the counter.
\<close>

definition bootstrapIds :: "int list" where
  "bootstrapIds = [0x1, 0xe, 0x10]"

definition sourceElemRemapSelect :: "int list \<Rightarrow> int list" where
  "sourceElemRemapSelect elementIds = sort (filter (\<lambda>e. e \<notin> set bootstrapIds) elementIds)"

fun elemRemapPass :: "int list \<Rightarrow> CompactRemapTable \<times> int \<Rightarrow> CompactRemapTable \<times> int" where
  "elemRemapPass [] st = st"
| "elemRemapPass (sourceId # reader) (element, nextElemId) =
     elemRemapPass reader
       (remap (doubleOfInt sourceId) nextElemId element, doubleOfInt (nextElemId + 1))"

text \<open>
  The sorted multiwalk over \<open>ElementMultiAspect\<close>, \<open>ElementUniqueAspect\<close> and
  \<open>ElementRefersToElements\<close>. A reader is the list of the identifiers of the rows it
  has not passed yet, the empty list is \<open>reader.done\<close>. \<open>reader.current[0] as number\<close>
  is the 64-bit integer of the row as a number, so the nearest double. The head of a
  finished reader counts as \<open>Number.POSITIVE_INFINITY\<close>.
\<close>

definition currentOrInfinity :: "int list \<Rightarrow> Number" where
  "currentOrInfinity reader =
     (case reader of [] \<Rightarrow> POSITIVE_INFINITY | x # _ \<Rightarrow> Finite (doubleOfInt x))"

fun Math_min :: "Number \<Rightarrow> Number \<Rightarrow> Number" where
  "Math_min NEGATIVE_INFINITY y = NEGATIVE_INFINITY"
| "Math_min x NEGATIVE_INFINITY = NEGATIVE_INFINITY"
| "Math_min (Finite x) (Finite y) = Finite (min x y)"
| "Math_min (Finite x) POSITIVE_INFINITY = Finite x"
| "Math_min POSITIVE_INFINITY y = y"

text \<open>The nested loop of pairwise \<open>assert(id1 !== id2)\<close> over the finite heads.\<close>

fun headsDistinct :: "Number list \<Rightarrow> bool" where
  "headsDistinct [] = True"
| "headsDistinct (id1 # ids) =
     ((\<forall>id2\<in>set ids. id1 = POSITIVE_INFINITY \<or> id2 = POSITIVE_INFINITY \<or> id1 \<noteq> id2)
      \<and> headsDistinct ids)"

text \<open>
  The local \<open>remap\<close> closure: \<open>useInstanceIdRaw()\<close>, then \<open>nonElemEntity.remap\<close>.
  \<open>_nextInstanceId++\<close> gives the old value and stores the sum, rounded as every sum of
  numbers is.
\<close>

definition remapInstance :: "int \<Rightarrow> CompactRemapTable \<times> int \<Rightarrow> CompactRemapTable \<times> int" where
  "remapInstance sourceId st =
     (case st of (nonElemEntity, nextInstanceId) \<Rightarrow>
        (remap sourceId nextInstanceId nonElemEntity, doubleOfInt (nextInstanceId + 1)))"

text \<open>
  The \<open>while (true)\<close> loop. Each round passes one row of one reader, so the loop ends.
  The branch taken has a finite head, which is the number remapped; the \<open>[]\<close> cases
  below cannot be reached and only make the definition total.
\<close>

function mergeLoop ::
  "int list \<Rightarrow> int list \<Rightarrow> int list \<Rightarrow> CompactRemapTable \<times> int
   \<Rightarrow> error + CompactRemapTable \<times> int" where
  "mergeLoop multiAspectReader uniqueAspectReader relReader st =
     (let multiAspectId = currentOrInfinity multiAspectReader;
          uniqueAspectId = currentOrInfinity uniqueAspectReader;
          relId = currentOrInfinity relReader
      in if multiAspectId = POSITIVE_INFINITY \<and> uniqueAspectId = POSITIVE_INFINITY
            \<and> relId = POSITIVE_INFINITY
         then Inr st
         else if \<not> headsDistinct [uniqueAspectId, relId, multiAspectId] then Inl AssertionError
         else if multiAspectId = Math_min (Math_min multiAspectId uniqueAspectId) relId then
           (case multiAspectReader of
              [] \<Rightarrow> Inr st
            | x # rest \<Rightarrow>
                mergeLoop rest uniqueAspectReader relReader (remapInstance (doubleOfInt x) st))
         else if uniqueAspectId = Math_min (Math_min multiAspectId uniqueAspectId) relId then
           (case uniqueAspectReader of
              [] \<Rightarrow> Inr st
            | x # rest \<Rightarrow>
                mergeLoop multiAspectReader rest relReader (remapInstance (doubleOfInt x) st))
         else
           (case relReader of
              [] \<Rightarrow> Inr st
            | x # rest \<Rightarrow>
                mergeLoop multiAspectReader uniqueAspectReader rest
                  (remapInstance (doubleOfInt x) st)))"
  by pat_completeness auto
termination
  by (relation "measure (\<lambda>(m, u, r, st). length m + length u + length r)") auto

declare mergeLoop.simps [simp del]



definition alloc_between ::
  "int set \<Rightarrow> CompactRemapTable \<Rightarrow> int \<Rightarrow> CompactRemapTable \<Rightarrow> int \<Rightarrow> bool" where
  "alloc_between S T n T' n' =
     (wf_runs T' \<and> n \<le> n'
      \<and> (\<forall>x. x \<notin> S \<longrightarrow> table_get T' x = table_get T x)
      \<and> (\<forall>x\<in>S. \<exists>t. table_get T' x = Some t \<and> n \<le> t \<and> t < n')
      \<and> (\<forall>x\<in>S. \<forall>y\<in>S. x < y \<longrightarrow>
            (\<forall>t1 t2. table_get T' x = Some t1 \<and> table_get T' y = Some t2 \<longrightarrow> t1 < t2)))"

section \<open>Stores and connections\<close>

text \<open>
  What the transformer reads and writes of an iModel file: the identifiers of its
  element, aspect and link-table relationship rows, its \<open>bis_CodeSpec\<close> table, the trigger
  rows of \<open>sqlite_master\<close> (name and SQL text) and the two identifier sequences of
  \<open>be_Local\<close>. An element row carries its columns by access path: a property name with a
  component (\<open>Id\<close>, \<open>RelECClassId\<close>, \<open>x\<close>, \<open>y\<close>, \<open>z\<close>, or empty for the property itself).
\<close>

datatype SqlValue = Null | IntV int | TextV string

type_synonym AccessPath = "string \<times> string"

record EntityRow =
  ECInstanceId :: int
  classFullName :: string
  columns :: "(AccessPath \<times> SqlValue) list"

record CodeSpecRow =
  cs_Id :: int
  cs_Name :: string
  cs_JsonProperties :: string

record IModel =
  bis_Element :: "EntityRow list"
  bis_ElementMultiAspect :: "int list"
  bis_ElementUniqueAspect :: "int list"
  bis_ElementRefersToElements :: "int list"
  bis_CodeSpec :: "CodeSpecRow list"
  sqlite_master_triggers :: "(string \<times> string) list"
  bis_elementidsequence :: int
  ec_instanceidsequence :: int

text \<open>
  A SQLite connection has one primary database, always called \<open>main\<close>, and the databases
  attached to it under a name. A table written without a schema name is looked up in
  \<open>temp\<close>, then \<open>main\<close>, then the attached databases; no temporary table is called
  \<open>bis_CodeSpec\<close>, so the unqualified name is \<open>main\<close>'s table. A qualifier that names no
  database of the connection is an error (\<open>None\<close>).
\<close>

record Connection =
  main_db :: IModel
  attached :: "(string \<times> IModel) list"

definition tableRef_bis_CodeSpec :: "'a Connection_scheme \<Rightarrow> string option \<Rightarrow> CodeSpecRow list option" where
  "tableRef_bis_CodeSpec conn qualifier =
     (case qualifier of
        None \<Rightarrow> Some (bis_CodeSpec (main_db conn))
      | Some q \<Rightarrow>
          if q = ''main'' then Some (bis_CodeSpec (main_db conn))
          else map_option bis_CodeSpec (map_of (attached conn) q))"

text \<open>\<open>FROM s LEFT JOIN t ON s.Name = t.Name\<close>, selecting both rows.\<close>

definition leftJoinOnName ::
  "CodeSpecRow list \<Rightarrow> CodeSpecRow list \<Rightarrow> (CodeSpecRow \<times> CodeSpecRow option) list" where
  "leftJoinOnName ss ts =
     concat (map (\<lambda>s. case filter (\<lambda>t. cs_Name s = cs_Name t) ts of
                          [] \<Rightarrow> [(s, None)]
                        | ms \<Rightarrow> map (\<lambda>t. (s, Some t)) ms) ss)"

section \<open>CodeSpec remapping of the CompactRemapTable version\<close>

text \<open>
  \<open>codeSpecRemapSelect\<close> is
  \<^verbatim>\<open>SELECT s.Id, t.Id FROM bis_CodeSpec s LEFT JOIN main.bis_CodeSpec t ON s.Name=t.Name\<close>
  and is prepared on the connection it is given. The loop remaps a source CodeSpec to the
  joined identifier when there is one and to \<open>useCodeSpecIdRaw()\<close> otherwise; every
  identifier goes through \<open>parseInt\<close>.
\<close>

definition codeSpecRemapSelect ::
  "'a Connection_scheme \<Rightarrow> (CodeSpecRow \<times> CodeSpecRow option) list option" where
  "codeSpecRemapSelect conn =
     (case (tableRef_bis_CodeSpec conn None, tableRef_bis_CodeSpec conn (Some ''main'')) of
        (Some s, Some t) \<Rightarrow> Some (leftJoinOnName s t)
      | _ \<Rightarrow> None)"

fun codeSpecRemapLoop ::
  "(CodeSpecRow \<times> CodeSpecRow option) list \<Rightarrow> CompactRemapTable \<times> int \<Rightarrow> CompactRemapTable \<times> int" where
  "codeSpecRemapLoop [] st = st"
| "codeSpecRemapLoop ((s, maybeTarget) # stmt) (codespec, nextCodeSpecId) =
     (case maybeTarget of
        Some t \<Rightarrow>
          codeSpecRemapLoop stmt
            (remap (doubleOfInt (cs_Id s)) (doubleOfInt (cs_Id t)) codespec, nextCodeSpecId)
      | None \<Rightarrow>
          codeSpecRemapLoop stmt
            (remap (doubleOfInt (cs_Id s)) nextCodeSpecId codespec, doubleOfInt (nextCodeSpecId + 1)))"

text \<open>
  \<open>SELECT Max(ECInstanceId) FROM Bis.CodeSpec\<close>; the counter starts at
  \<open>parseInt(..., 16) + 1\<close>. For an empty table the maximum is \<open>NULL\<close>, read here as the
  invalid identifier \<open>0\<close>.
\<close>

definition maxCodeSpecId :: "IModel \<Rightarrow> int" where
  "maxCodeSpecId db = foldr max (map cs_Id (bis_CodeSpec db)) 0"

definition nextCodeSpecIdOf :: "IModel \<Rightarrow> int" where
  "nextCodeSpecIdOf db = doubleOfInt (doubleOfInt (maxCodeSpecId db) + 1)"

section \<open>Class metadata and statement synthesis (getClassDatas, bulkInsertTransform)\<close>

text \<open>
  \<open>PropertyType\<close>, \<open>SchemaItemType\<close> and \<open>ECClassModifier\<close> are enumerations of
  \<open>@itwin/ecschema-metadata\<close>; their members are listed as that package declares them.
  An \<open>ECClass\<close> is what \<open>SchemaLoader\<close> returns for a class: \<open>isAspect\<close> stands for
  \<open>ecclass.isSync(multiAspect) || ecclass.isSync(uniqueAspect)\<close>.
\<close>

datatype PropertyType =
    Struct | Struct_Array | Navigation
  | Binary | Binary_Array | Boolean | Boolean_Array | DateTime | DateTime_Array
  | Double | Double_Array | Integer | Integer_Array
  | Integer_Enumeration | Integer_Enumeration_Array | Long | Long_Array
  | Point2d | Point2d_Array | Point3d | Point3d_Array
  | String | String_Array | String_Enumeration | String_Enumeration_Array
  | IGeometry | IGeometry_Array

record PropInfo =
  name :: string
  propertyType :: PropertyType
  isReadOnly :: bool

datatype SchemaItemType = EntityClass | RelationshipClass | StructClass | CustomAttributeClass | Mixin

datatype ECClassModifier = NoModifier | Abstract | Sealed

record ECClass =
  class_name :: string
  schemaItemType :: SchemaItemType
  modifier :: ECClassModifier
  getProperties :: "PropInfo list"
  isAspect :: bool

record ECSchema =
  schema_name :: string
  schema_version :: string
  getClasses :: "ECClass list"

datatype RootType = RootElement | RootAspect | RootCodeSpec | RootRelationship

record ClassData =
  schemaKey :: string
  properties :: "PropInfo list"
  rootType :: RootType

text \<open>
  A cached entry is the marker \<open>"NON_TRANSFORMABLE_CLASS"\<close> or the statements of the
  class. Of the statements the model keeps what decides which rows and columns are moved:
  the properties queried, the column expressions of the \<open>SELECT\<close> and whether its
  \<open>WHERE\<close> clause excludes the bootstrap identifiers. (The SQL text itself is what ECDb
  makes of the ECSQL and is not in the sources.)
\<close>

datatype CachedClassStatements =
    NON_TRANSFORMABLE_CLASS
  | ClassStatements (stmt_queryProps: "PropInfo list") (stmt_select: "string list")
      (stmt_whereNotBootstrap: bool)

type_synonym StatementCache = "(string \<times> (string \<times> CachedClassStatements) list) list"

definition fullName :: "string \<Rightarrow> ECClass \<Rightarrow> string" where
  "fullName schemaName ecclass = schemaName @ ''.'' @ class_name ecclass"

definition rootTypeOf :: "string \<Rightarrow> ECClass \<Rightarrow> RootType" where
  "rootTypeOf schemaName ecclass =
     (if schemaItemType ecclass = RelationshipClass then RootRelationship
      else if fullName schemaName ecclass = ''BisCore.CodeSpec'' then RootCodeSpec
      else if isAspect ecclass then RootAspect
      else RootElement)"

definition classProperties :: "ECClass \<Rightarrow> PropInfo list" where
  "classProperties ecclass =
     [\<lparr>name = ''ECInstanceId'', propertyType = Long, isReadOnly = False\<rparr>]
     @ (if schemaItemType ecclass = RelationshipClass
        then [\<lparr>name = ''SourceECInstanceId'', propertyType = Long, isReadOnly = False\<rparr>,
              \<lparr>name = ''TargetECInstanceId'', propertyType = Long, isReadOnly = False\<rparr>]
        else [])
     @ getProperties ecclass"

text \<open>
  The inner loop of \<open>getClassDatas\<close> over the classes of one schema: every class is first
  marked \<open>"NON_TRANSFORMABLE_CLASS"\<close>; only a concrete entity or relationship class gets
  class data.
\<close>

fun classLoop ::
  "string \<Rightarrow> string \<Rightarrow> ECClass list
   \<Rightarrow> (string \<times> ClassData) list \<times> (string \<times> CachedClassStatements) list
   \<Rightarrow> (string \<times> ClassData) list \<times> (string \<times> CachedClassStatements) list" where
  "classLoop key schemaName [] st = st"
| "classLoop key schemaName (ecclass # classes) (classDatas, schemaStmts) =
     (let schemaStmts' = AList.update (class_name ecclass) NON_TRANSFORMABLE_CLASS schemaStmts in
      if \<not> (schemaItemType ecclass = EntityClass \<or> schemaItemType ecclass = RelationshipClass)
      then classLoop key schemaName classes (classDatas, schemaStmts')
      else if modifier ecclass = Abstract
      then classLoop key schemaName classes (classDatas, schemaStmts')
      else classLoop key schemaName classes
             (AList.update (fullName schemaName ecclass)
                \<lparr>schemaKey = key, properties = classProperties ecclass,
                 rootType = rootTypeOf schemaName ecclass\<rparr> classDatas,
              schemaStmts'))"

text \<open>
  The loop of \<open>getClassDatas\<close> over \<open>schemas\<close>: a schema whose key is already in the
  statement cache is passed over.
\<close>

fun schemasLoop ::
  "ECSchema list \<Rightarrow> (string \<times> ClassData) list \<times> StatementCache
   \<Rightarrow> (string \<times> ClassData) list \<times> StatementCache" where
  "schemasLoop [] st = st"
| "schemasLoop (schema # schemas) (classDatas, statementCache) =
     (let key = schema_name schema @ ''@'' @ schema_version schema in
      if map_of statementCache key \<noteq> None
      then schemasLoop schemas (classDatas, statementCache)
      else
        (case classLoop key (schema_name schema) (getClasses schema) (classDatas, [])
         of (classDatas', schemaStmts) \<Rightarrow>
           schemasLoop schemas (classDatas', AList.update key schemaStmts statementCache)))"

text \<open>
  \<open>getClassDatas\<close>. The list \<open>schemas\<close> is filled by a loop over the rows of
  \<open>classRemapsReader\<close> whose body reads \<open>schemaNamesReader.current\<close>, a name that the first
  version binds nowhere: with at least one row the function throws a \<open>ReferenceError\<close>.
  With no row \<open>schemas\<close> stays empty, and the loop over it has nothing to do. The rows
  themselves are never read.
\<close>

definition getClassDatas ::
  "string list list \<Rightarrow> StatementCache \<Rightarrow> error + (string \<times> ClassData) list \<times> StatementCache" where
  "getClassDatas classRemapsReader statementCache =
     (if classRemapsReader \<noteq> [] then Inl (ReferenceError ''schemaNamesReader'')
      else Inr (schemasLoop [] ([], statementCache)))"

definition excludedPropertyTypes :: "PropertyType list" where
  "excludedPropertyTypes =
     [Struct, Struct_Array, Binary_Array, Boolean_Array, DateTime_Array, Double_Array,
      Integer_Array, Integer_Enumeration_Array, Long_Array, Point2d_Array, Point3d_Array,
      String_Array, String_Enumeration_Array, IGeometry_Array]"

definition queryProps :: "PropInfo list \<Rightarrow> PropInfo list" where
  "queryProps props = filter (\<lambda>p. propertyType p \<notin> set excludedPropertyTypes) props"

definition selectExprs :: "PropInfo \<Rightarrow> string list" where
  "selectExprs p =
     (if propertyType p = Navigation
        then [''['' @ name p @ ''].Id'', ''['' @ name p @ ''].RelECClassId'']
      else if propertyType p = Point2d
        then [''['' @ name p @ ''].X'', ''['' @ name p @ ''].Y'']
      else if propertyType p = Point3d
        then [''['' @ name p @ ''].X'', ''['' @ name p @ ''].Y'', ''['' @ name p @ ''].Z'']
      else [''['' @ name p @ '']''])"


definition classStatements :: "ClassData \<Rightarrow> CachedClassStatements" where
  "classStatements cd =
     ClassStatements (queryProps (properties cd))
       (concat (map selectExprs (queryProps (properties cd))))
       (rootType cd = RootElement)"

text \<open>
  \<open>transformType\<close> is read by \<open>bulkInsertTransform\<close>, in its first statement and again
  where the text of the bulk insert statements is made, and the first version binds the
  name nowhere: the function has the parameters \<open>source\<close>, \<open>target\<close> and an options
  object (the call passes \<open>"process-all"\<close> as a third argument and the options as a
  fourth, which is dropped), and no declaration of the module or import has the name.
  Reading it throws a \<open>ReferenceError\<close>. \<open>transformType\<close> below is the value the name has
  in the scope of the function: none.
\<close>

definition transformType :: "string option" where
  "transformType = None"

text \<open>\<open>classFullName.split(".")\<close>, of which the first two parts are used.\<close>

definition splitFullName :: "string \<Rightarrow> string \<times> string" where
  "splitFullName s =
     (takeWhile (\<lambda>c. c \<noteq> CHR ''.'') s,
      takeWhile (\<lambda>c. c \<noteq> CHR ''.'') (drop 1 (dropWhile (\<lambda>c. c \<noteq> CHR ''.'') s)))"

text \<open>The two tests of the \<open>catch\<close> block on the message of the error.\<close>

definition endsWith :: "string \<Rightarrow> string \<Rightarrow> bool" where
  "endsWith s suffix = (length suffix \<le> length s \<and> drop (length s - length suffix) s = suffix)"

definition includes_str :: "string \<Rightarrow> string \<Rightarrow> bool" where
  "includes_str s part = (\<exists>i\<in>set [0..<Suc (length s)]. take (length part) (drop i s) = part)"

definition skippedError :: "string \<Rightarrow> bool" where
  "skippedError message =
     (endsWith message ''Use the respective navigation property to modify it.''
      \<or> includes_str message ''is mapped to an existing table not owned by ECDb'')"

text \<open>
  The first loop of \<open>bulkInsertTransform\<close>. Whether ECDb accepts the statements of a
  class is the store's answer: \<open>prepareError\<close> gives the message of the error thrown
  while they are prepared, if any. A class whose error passes one of the two tests is
  skipped (\<open>continue\<close>); any other error is thrown again. When the statements are
  accepted, the body goes on to make \<open>bulkInsertSqls\<close>, whose text depends on
  \<open>transformType\<close>: reading that name throws inside the \<open>try\<close>, the message of a
  \<open>ReferenceError\<close> passes neither test of the \<open>catch\<close> block, and the error is thrown
  again. Only past that point are the statements of the class cached and its inserter kept.
\<close>

fun synthesizeLoop ::
  "(string \<Rightarrow> string option) \<Rightarrow> (string \<times> ClassData) list
   \<Rightarrow> (string \<times> string \<times> string) list \<times> StatementCache
   \<Rightarrow> error + (string \<times> string \<times> string) list \<times> StatementCache" where
  "synthesizeLoop prepareError [] st = Inr st"
| "synthesizeLoop prepareError ((classFull, cd) # classDatas) (classInserters, statementCache) =
     (case prepareError classFull of
        Some message \<Rightarrow>
          if skippedError message
          then synthesizeLoop prepareError classDatas (classInserters, statementCache)
          else Inl (ThrownError message)
      | None \<Rightarrow>
          (case transformType of
             None \<Rightarrow> Inl (ReferenceError ''transformType'')
           | Some t \<Rightarrow>
               (case splitFullName classFull of (schemaName, className) \<Rightarrow>
                  synthesizeLoop prepareError classDatas
                    (AList.update classFull (schemaName, className) classInserters,
                     AList.map_entry (schemaKey cd)
                       (AList.update className (classStatements cd)) statementCache))))"

section \<open>The bulk-insert run (rawEmulatedPolymorphicInsertTransform, first version)\<close>

text \<open>
  The state of the connection \<open>writeableTarget\<close>: the target file, the attached source,
  the \<open>defer_foreign_keys\<close> pragma, the four temporary remap tables, and the classes whose
  bulk insert statements have been stepped.
\<close>

record BulkTarget = Connection +
  defer_foreign_keys :: bool
  temp_element_remap :: "Run list"
  temp_codespec_remap :: "Run list"
  temp_nonElemEntity_remap :: "Run list"
  temp_font_remap :: "Run list"
  executed :: "string list"

text \<open>
  The second loop of \<open>bulkInsertTransform\<close> runs the inserter of each class in turn.
  Stepping a statement is the store's work: \<open>stepError\<close> tells for which class the step
  does not end with \<open>BE_SQLITE_DONE\<close>, which fails the \<open>assert\<close>. The result is the
  error, if any, with the state the connection is left in.
\<close>

fun insertLoop ::
  "(string \<Rightarrow> string option) \<Rightarrow> (string \<times> string \<times> string) list \<Rightarrow> BulkTarget
   \<Rightarrow> error option \<times> BulkTarget" where
  "insertLoop stepError [] target = (None, target)"
| "insertLoop stepError ((classFull, inserter) # classInserters) target =
     (case stepError classFull of
        Some message \<Rightarrow> (Some AssertionError, target)
      | None \<Rightarrow>
          insertLoop stepError classInserters (target\<lparr>executed := executed target @ [classFull]\<rparr>))"

text \<open>
  \<open>bulkInsertTransform\<close>. Its first statement is
  \<open>assert(transformType === "process-all", ...)\<close>: reading the name throws, on every
  call, before anything else is done. The statements that follow the \<open>assert\<close> in the
  text come after it here too.
\<close>

definition bulkInsertTransform ::
  "string list list \<Rightarrow> (string \<Rightarrow> string option) \<Rightarrow> (string \<Rightarrow> string option)
   \<Rightarrow> StatementCache \<Rightarrow> BulkTarget \<Rightarrow> (error option \<times> BulkTarget) \<times> StatementCache" where
  "bulkInsertTransform classRemapsReader prepareError stepError statementCache target =
     (case transformType of
        None \<Rightarrow> ((Some (ReferenceError ''transformType''), target), statementCache)
      | Some t \<Rightarrow>
          if t \<noteq> ''process-all'' then ((Some AssertionError, target), statementCache)
          else
            (case getClassDatas classRemapsReader statementCache of
               Inl err \<Rightarrow> ((Some err, target), statementCache)
             | Inr (classDatas, cache1) \<Rightarrow>
                 (case synthesizeLoop prepareError classDatas ([], cache1) of
                    Inl err \<Rightarrow> ((Some err, target), cache1)
                  | Inr (classInserters, cache2) \<Rightarrow>
                      (insertLoop stepError classInserters target, cache2))))"

text \<open>
  Triggers: \<open>triggers\<close> is the \<open>Map\<close> from name to SQL text read from \<open>sqlite_master\<close>;
  \<open>DROP TRIGGER\<close> removes the row of that name; running the SQL text of a trigger
  creates its row again.
\<close>

definition captureTriggers :: "IModel \<Rightarrow> (string \<times> string) list" where
  "captureTriggers db = foldl (\<lambda>result (triggerName, sql). AList.update triggerName sql result) []
     (sqlite_master_triggers db)"

definition dropTrigger :: "string \<Rightarrow> IModel \<Rightarrow> IModel" where
  "dropTrigger trigger db =
     db\<lparr>sqlite_master_triggers := filter (\<lambda>(n, sql). n \<noteq> trigger) (sqlite_master_triggers db)\<rparr>"

definition dropTriggers :: "(string \<times> string) list \<Rightarrow> IModel \<Rightarrow> IModel" where
  "dropTriggers triggers db = foldl (\<lambda>d (trigger, sql). dropTrigger trigger d) db triggers"

definition createTrigger :: "string \<times> string \<Rightarrow> IModel \<Rightarrow> IModel" where
  "createTrigger trigger db = db\<lparr>sqlite_master_triggers := sqlite_master_triggers db @ [trigger]\<rparr>"

definition restoreTriggers :: "(string \<times> string) list \<Rightarrow> IModel \<Rightarrow> IModel" where
  "restoreTriggers triggers db = foldl (\<lambda>d trigger. createTrigger trigger d) db triggers"

record RemapTables =
  rt_element :: CompactRemapTable
  rt_nonElemEntity :: CompactRemapTable
  rt_codespec :: CompactRemapTable
  rt_font :: CompactRemapTable

text \<open>
  The tables as they stand before identifiers are allocated: every table remaps \<open>0\<close> to
  \<open>0\<close>, the font table holds the fonts already exported, and the element table remaps the
  three bootstrap identifiers to themselves.
\<close>

definition seedRemapTables :: "(int \<times> int) list \<Rightarrow> RemapTables" where
  "seedRemapTables fontRemaps =
     \<lparr>rt_element = remap 0x10 0x10 (remap 0xe 0xe (remap 1 1 (remap 0 0 []))),
      rt_nonElemEntity = remap 0 0 [],
      rt_codespec = remap 0 0 [],
      rt_font = foldl (\<lambda>font (sourceId, targetId). remap sourceId targetId font)
                  (remap 0 0 []) fontRemaps\<rparr>"

record Remapper =
  remapper_findTargetElementId :: "Id64String \<Rightarrow> Id64String"
  remapper_findTargetCodeSpecId :: "Id64String \<Rightarrow> Id64String"

text \<open>
  What the run takes from outside: the fonts \<open>processFonts\<close> imported, the rows of
  \<open>classRemapsReader\<close>, the store's answers when statements are prepared and stepped, and
  the module-level statement cache.
\<close>

record Environment =
  env_fontRemaps :: "(int \<times> int) list"
  env_classRemapsReader :: "string list list"
  env_prepareError :: "string \<Rightarrow> string option"
  env_stepError :: "string \<Rightarrow> string option"
  env_statementCache :: StatementCache

text \<open>
  A counter starts at \<open>parseInt(s.getValue(0).getId(), 16) + 1\<close>, for the value of its
  sequence in \<open>be_Local\<close>.
\<close>

definition firstIdAfter :: "int \<Rightarrow> int" where
  "firstIdAfter val = doubleOfInt (doubleOfInt val + 1)"

text \<open>The element table once the element pass has run.\<close>

definition elementRemapTable :: "(int \<times> int) list \<Rightarrow> IModel \<Rightarrow> IModel \<Rightarrow> CompactRemapTable" where
  "elementRemapTable fontRemaps source target =
     fst (elemRemapPass (sourceElemRemapSelect (map ECInstanceId (bis_Element source)))
            (rt_element (seedRemapTables fontRemaps),
             firstIdAfter (bis_elementidsequence target)))"

text \<open>
  The run, from the seeding of the tables to the \<open>Remapper\<close>. The result pairs what the
  promise settles with (an error, or the remapper when one was asked for) with the state
  of \<open>writeableTarget\<close> at that moment. Every step is in the order of the source; there
  is no \<open>try\<close> around them. The rejection of \<open>bulkInsertTransform\<close> is thrown by the
  \<open>await\<close> at the call.
\<close>

definition rawEmulatedPolymorphicInsertTransform ::
  "Environment \<Rightarrow> IModel \<Rightarrow> IModel \<Rightarrow> bool \<Rightarrow> (error + Remapper option) \<times> BulkTarget" where
  "rawEmulatedPolymorphicInsertTransform env source target returnRemapper =
     (let remapTables = seedRemapTables (env_fontRemaps env);
          triggers = captureTriggers target;
          writeableTarget =
            \<lparr>main_db = dropTriggers triggers target, attached = [(''source'', source)],
             defer_foreign_keys = True,
             temp_element_remap = [], temp_codespec_remap = [],
             temp_nonElemEntity_remap = [], temp_font_remap = [], executed = []\<rparr>;
          nextInstanceId = firstIdAfter (ec_instanceidsequence target);
          element = elementRemapTable (env_fontRemaps env) source target
      in case mergeLoop (sort (bis_ElementMultiAspect source)) (sort (bis_ElementUniqueAspect source))
                (sort (bis_ElementRefersToElements source))
                (rt_nonElemEntity remapTables, nextInstanceId) of
           Inl err \<Rightarrow> (Inl err, writeableTarget)
         | Inr (nonElemEntity, nextInstanceId') \<Rightarrow>
            (case codeSpecRemapSelect \<lparr>main_db = source, attached = []\<rparr> of
               None \<Rightarrow> (Inl (ThrownError ''no such table''), writeableTarget)
             | Some stmt \<Rightarrow>
                (let codespec = fst (codeSpecRemapLoop stmt
                                       (rt_codespec remapTables, nextCodeSpecIdOf target));
                     loaded = writeableTarget
                       \<lparr>temp_element_remap := giveSqliteTheTable element,
                        temp_codespec_remap := giveSqliteTheTable codespec,
                        temp_nonElemEntity_remap := giveSqliteTheTable nonElemEntity,
                        temp_font_remap := giveSqliteTheTable (rt_font remapTables)\<rparr>
                 in case fst (bulkInsertTransform (env_classRemapsReader env) (env_prepareError env)
                                (env_stepError env) (env_statementCache env) loaded) of
                      (Some err, failed) \<Rightarrow> (Inl err, failed)
                    | (None, inserted) \<Rightarrow>
                       (Inr (if returnRemapper
                             then Some \<lparr>remapper_findTargetElementId = makeGetter element,
                                        remapper_findTargetCodeSpecId = makeGetter codespec\<rparr>
                             else None),
                        inserted\<lparr>defer_foreign_keys := False,
                                 main_db := restoreTriggers triggers (main_db inserted)\<rparr>))))"

section \<open>The populate-and-hydrate version (JsPolymorphicInserter.ts from line 767)\<close>

text \<open>
  In this version the remap tables are plain temporary tables
  \<open>temp.<type>_remap(SourceId INTEGER NOT NULL PRIMARY KEY, TargetId INTEGER NOT NULL)\<close>
  of the connection \<open>writeableTarget\<close>. A lookup is the scalar subquery
  \<^verbatim>\<open>SELECT TargetId FROM temp.<type>_remap WHERE SourceId=...\<close>, which is \<open>NULL\<close> when
  no row matches or the sought value is \<open>NULL\<close>; an \<open>INSERT\<close> of a source identifier
  already in the table violates the primary key and fails the \<open>assert\<close> on its step.
\<close>

record TwoPassTarget = Connection +
  element_remap :: "(int \<times> int) list"
  codespec_remap :: "(int \<times> int) list"
  aspect_remap :: "(int \<times> int) list"

definition remapLookup :: "(int \<times> int) list \<Rightarrow> int option \<Rightarrow> int option" where
  "remapLookup remap_rows sourceId =
     (case sourceId of None \<Rightarrow> None | Some i \<Rightarrow> map_of remap_rows i)"

definition insertRemap :: "int \<Rightarrow> int \<Rightarrow> (int \<times> int) list \<Rightarrow> error + (int \<times> int) list" where
  "insertRemap sourceId targetId remap_rows =
     (if sourceId \<in> fst ` set remap_rows then Inl AssertionError
      else Inr (remap_rows @ [(sourceId, targetId)]))"

definition sqlInt :: "int option \<Rightarrow> SqlValue" where
  "sqlInt v = (case v of None \<Rightarrow> Null | Some i \<Rightarrow> IntV i)"

text \<open>
  The JSON of a source row (\<open>$\<close> in the ECSQL of \<open>sourceElemSelect\<close>) is read only through
  \<open>JSON_EXTRACT(:x, '$.<path>')\<close>, so it is kept as the values at its access paths; a
  path that is absent extracts \<open>NULL\<close>. Identifiers appear in it as hexadecimal text.
\<close>

type_synonym Json = "(AccessPath \<times> SqlValue) list"

definition JSON_EXTRACT :: "Json \<Rightarrow> AccessPath \<Rightarrow> SqlValue" where
  "JSON_EXTRACT x path = (case map_of x path of None \<Rightarrow> Null | Some v \<Rightarrow> v)"

text \<open>
  \<open>readHexFromJson\<close>: the sixteen terms
  \<^verbatim>\<open>instr('123456789abcdef', substr('0000000000000000' || lower(JSON_EXTRACT(...)), -k, 1)) << 4*(k-1)\<close>
  joined by \<open>|\<close>. \<open>instr\<close> is the position of the character in the digit string and \<open>0\<close>
  for any other character (so for \<open>0\<close> and for the \<open>x\<close> of the prefix); the result is a
  64-bit signed integer, and \<open>NULL\<close> when the extracted value is. \<open>||\<close> turns an integer
  into its decimal text.
\<close>

definition sql_lower :: "string \<Rightarrow> string" where
  "sql_lower s = map (\<lambda>c. if 65 \<le> (of_char c :: nat) \<and> (of_char c :: nat) \<le> 90
                           then char_of ((of_char c :: nat) + 32) else c) s"

fun instr :: "string \<Rightarrow> char \<Rightarrow> int" where
  "instr [] c = 0"
| "instr (h # t) c = (if h = c then 1 else (if instr t c = 0 then 0 else instr t c + 1))"

definition instr_hexdigits :: "char \<Rightarrow> int" where
  "instr_hexdigits c = instr ''123456789abcdef'' c"

fun decDigits :: "nat \<Rightarrow> string" where
  "decDigits n = (if n < 10 then [hexDigitChar n] else decDigits (n div 10) @ [hexDigitChar (n mod 10)])"

declare decDigits.simps [simp del]

definition sqlText :: "SqlValue \<Rightarrow> string option" where
  "sqlText v =
     (case v of
        Null \<Rightarrow> None
      | TextV s \<Rightarrow> Some s
      | IntV n \<Rightarrow> Some (if n < 0 then ''-'' @ decDigits (nat (- n)) else decDigits (nat n)))"

definition readHex :: "string \<Rightarrow> int" where
  "readHex txt =
     (let str = ''0000000000000000'' @ sql_lower txt in
      signed_take_bit 63
        (foldr (\<lambda>k acc. or (push_bit (4 * (k - 1)) (instr_hexdigits (str ! (length str - k)))) acc)
           [1..<17] 0))"

definition readHexFromJson :: "AccessPath \<Rightarrow> Json \<Rightarrow> int option" where
  "readHexFromJson path x = map_option readHex (sqlText (JSON_EXTRACT x path))"

definition hexPath :: "PropInfo \<Rightarrow> AccessPath" where
  "hexPath p = (name p, if propertyType p = Navigation then ''Id'' else [])"






text \<open>
  \<open>updateQuery\<close>: only the navigation properties that are not read-only, and
  \<open>CodeValue\<close>, are assigned. With no such property the update is skipped.
\<close>

definition updateProps :: "PropInfo list \<Rightarrow> PropInfo list" where
  "updateProps props =
     filter (\<lambda>p. (\<not> isReadOnly p \<and> propertyType p = Navigation) \<or> name p = ''CodeValue'') props"

definition updateAssignment :: "TwoPassTarget \<Rightarrow> Json \<Rightarrow> PropInfo \<Rightarrow> AccessPath \<times> SqlValue" where
  "updateAssignment ecdb x p =
     (if propertyType p = Navigation \<and> name p = ''CodeSpec''
        then ((name p, ''Id''),
              sqlInt (remapLookup (codespec_remap ecdb) (readHexFromJson (hexPath p) x)))
      else if propertyType p = Navigation
        then ((name p, ''Id''),
              sqlInt (remapLookup (element_remap ecdb) (readHexFromJson (hexPath p) x)))
      else if propertyType p = Long
        then ((name p, []),
              sqlInt (remapLookup (element_remap ecdb) (readHexFromJson (hexPath p) x)))
      else ((name p, []), JSON_EXTRACT x (''CodeValue'', [])))"

definition setColumns :: "(AccessPath \<times> SqlValue) list \<Rightarrow> EntityRow \<Rightarrow> EntityRow" where
  "setColumns assignments row =
     row\<lparr>columns := foldl (\<lambda>cols (path, v). AList.update path v cols) (columns row) assignments\<rparr>"

definition whereTargetId :: "TwoPassTarget \<Rightarrow> Json \<Rightarrow> int option" where
  "whereTargetId ecdb x =
     remapLookup (element_remap ecdb) (readHexFromJson (''ECInstanceId'', []) x)"

definition update :: "string \<Rightarrow> PropInfo list \<Rightarrow> Json \<Rightarrow> TwoPassTarget \<Rightarrow> TwoPassTarget" where
  "update classFull props x ecdb =
     (if updateProps props = [] then ecdb
      else
        (case whereTargetId ecdb x of
           None \<Rightarrow> ecdb
         | Some targetId \<Rightarrow>
             ecdb\<lparr>main_db := (main_db ecdb)
               \<lparr>bis_Element :=
                  map (\<lambda>row. if ECInstanceId row = targetId \<and> classFullName row = classFull
                              then setColumns (map (updateAssignment ecdb x) (updateProps props)) row
                              else row)
                    (bis_Element (main_db ecdb))\<rparr>\<rparr>))"




text \<open>
  The CodeSpecs of this version. \<open>sourceCodeSpecSelect\<close> is
  \<^verbatim>\<open>SELECT s.Id, t.Id, s.Name, s.JsonProperties FROM source.bis_CodeSpec s
  LEFT JOIN main.bis_CodeSpec t ON s.Name=t.Name\<close>, prepared on \<open>writeableTarget\<close>, to
  which the source is attached as \<open>source\<close>. A source CodeSpec with no target of its name
  is inserted (the store gives it the identifier after the greatest in the table; the
  insert fails on the unique name index when the name exists by then), and the identifier
  found or made is recorded in \<open>temp.codespec_remap\<close>.
\<close>

definition sourceCodeSpecSelect ::
  "'a Connection_scheme \<Rightarrow> (CodeSpecRow \<times> CodeSpecRow option) list option" where
  "sourceCodeSpecSelect conn =
     (case (tableRef_bis_CodeSpec conn (Some ''source''), tableRef_bis_CodeSpec conn (Some ''main'')) of
        (Some s, Some t) \<Rightarrow> Some (leftJoinOnName s t)
      | _ \<Rightarrow> None)"

fun transformCodeSpecs ::
  "(CodeSpecRow \<times> CodeSpecRow option) list \<Rightarrow> TwoPassTarget \<Rightarrow> error + TwoPassTarget" where
  "transformCodeSpecs [] ecdb = Inr ecdb"
| "transformCodeSpecs ((s, maybeTarget) # stmt) ecdb =
     (case (case maybeTarget of
              Some t \<Rightarrow> Inr (ecdb, cs_Id t)
            | None \<Rightarrow>
                if cs_Name s \<in> cs_Name ` set (bis_CodeSpec (main_db ecdb))
                then Inl (ThrownError ''Expected BE_SQLITE_DONE'')
                else Inr (ecdb\<lparr>main_db := (main_db ecdb)
                            \<lparr>bis_CodeSpec := bis_CodeSpec (main_db ecdb)
                               @ [\<lparr>cs_Id = maxCodeSpecId (main_db ecdb) + 1, cs_Name = cs_Name s,
                                   cs_JsonProperties = cs_JsonProperties s\<rparr>]\<rparr>\<rparr>,
                          maxCodeSpecId (main_db ecdb) + 1))
      of Inl err \<Rightarrow> Inl err
       | Inr (ecdb', targetId) \<Rightarrow>
           (case insertRemap (cs_Id s) targetId (codespec_remap ecdb') of
              Inl err \<Rightarrow> Inl err
            | Inr remap_rows \<Rightarrow> transformCodeSpecs stmt (ecdb'\<lparr>codespec_remap := remap_rows\<rparr>)))"

text \<open>
  The connection as the two passes find it: the source attached, the three bootstrap
  rows in \<open>temp.element_remap\<close>.
\<close>

definition openWriteableTarget :: "IModel \<Rightarrow> IModel \<Rightarrow> TwoPassTarget" where
  "openWriteableTarget source target =
     \<lparr>main_db = target, attached = [(''source'', source)],
      element_remap = [(0x1, 0x1), (0xe, 0xe), (0x10, 0x10)], codespec_remap = [],
      aspect_remap = []\<rparr>"


section \<open>Example stores\<close>

text \<open>Small stores, a schema and an environment on which the definitions are run.\<close>

definition example_target :: IModel where
  "example_target =
     \<lparr>bis_Element = [], bis_ElementMultiAspect = [], bis_ElementUniqueAspect = [],
      bis_ElementRefersToElements = [],
      bis_CodeSpec = [\<lparr>cs_Id = 1, cs_Name = ''bis:NullCodeSpec'', cs_JsonProperties = ''{}''\<rparr>,
                      \<lparr>cs_Id = 9, cs_Name = ''Foo'', cs_JsonProperties = ''{}''\<rparr>],
      sqlite_master_triggers = [(''dgn_prjrange_del'', ''CREATE TRIGGER dgn_prjrange_del AFTER DELETE ON bis_GeometricElement3d BEGIN DELETE FROM dgn_SpatialIndex WHERE ElementId=old.ElementId;END'')],
      bis_elementidsequence = 0x20, ec_instanceidsequence = 0x20\<rparr>"

definition example_source :: IModel where
  "example_source =
     \<lparr>bis_Element = [\<lparr>ECInstanceId = 0x1, classFullName = ''BisCore.Subject'', columns = []\<rparr>,
                     \<lparr>ECInstanceId = 0x11, classFullName = ''Generic.Widget'', columns = []\<rparr>],
      bis_ElementMultiAspect = [2, 5], bis_ElementUniqueAspect = [3],
      bis_ElementRefersToElements = [1, 4],
      bis_CodeSpec = [\<lparr>cs_Id = 5, cs_Name = ''Foo'', cs_JsonProperties = ''{}''\<rparr>],
      sqlite_master_triggers = [],
      bis_elementidsequence = 0x11, ec_instanceidsequence = 5\<rparr>"


definition example_env :: Environment where
  "example_env =
     \<lparr>env_fontRemaps = [],
      env_classRemapsReader =
        [[''UserLabel'', ''12'', ''UserLabel'', ''bis_Element'', ''Widget'', ''Generic'']],
      env_prepareError = (\<lambda>c. None), env_stepError = (\<lambda>c. None), env_statementCache = []\<rparr>"



section \<open>Properties of the numbers\<close>

lemma ulp_small: "a < 2 ^ 53 \<Longrightarrow> ulp a = 1"
  by (simp add: ulp.simps)

lemma ulp_numeral:
  "ulp (numeral k) = (if numeral k < (2::nat) ^ 53 then 1 else 2 * ulp (numeral k div 2))"
  by (rule ulp.simps)


lemma roundNat_exact: "a \<le> 2 ^ 53 \<Longrightarrow> roundNat a = a"
proof (cases "a < 2 ^ 53")
  case True
  then show ?thesis by (simp add: roundNat_def ulp_small)
next
  case False
  assume "a \<le> 2 ^ 53"
  with False have a: "a = 2 ^ 53" by simp
  have "ulp 9007199254740992 = 2" by (simp add: ulp_numeral ulp_small)
  then show ?thesis by (simp add: roundNat_def a)
qed




lemma doubleOfInt_exact: "\<bar>n\<bar> \<le> 2 ^ 53 \<Longrightarrow> doubleOfInt n = n"
proof -
  assume b: "\<bar>n\<bar> \<le> 2 ^ 53"
  show ?thesis
  proof (cases "n < 0")
    case True
    with b have "nat (- n) \<le> 2 ^ 53" by (simp add: nat_le_iff)
    from roundNat_exact[OF this] True show ?thesis by (simp add: doubleOfInt_def)
  next
    case False
    with b have "nat n \<le> 2 ^ 53" by (simp add: nat_le_iff)
    from roundNat_exact[OF this] False show ?thesis by (simp add: doubleOfInt_def)
  qed
qed



lemma doubleOfInt_nonneg: "0 \<le> n \<Longrightarrow> 0 \<le> doubleOfInt n"
  by (simp add: doubleOfInt_def)

lemma toNumber_exact: "\<bar>n\<bar> \<le> 2 ^ 53 \<Longrightarrow> toNumber n = Finite n"
proof -
  assume b: "\<bar>n\<bar> \<le> 2 ^ 53"
  have "(2::int) ^ 53 < 2 ^ 1024" by simp
  with b have "\<not> 2 ^ 1024 \<le> n" "\<not> n \<le> - (2 ^ 1024)" by linarith+
  with doubleOfInt_exact[OF b] show ?thesis by (simp add: toNumber_def Let_def)
qed

lemma doubleOfInt_stuck: "doubleOfInt (2 ^ 53 + 1) = 2 ^ 53"
  by (simp add: doubleOfInt_def roundNat_def ulp_numeral Let_def)

lemma doubleOfInt_ex: "doubleOfInt 0x20000000000003 = 0x20000000000004"
  by (simp add: doubleOfInt_def roundNat_def ulp_numeral Let_def)

lemma hexDigitValue_hexDigitChar: "d < 16 \<Longrightarrow> hexDigitValue (hexDigitChar d) = Some (int d)"
proof -
  have all: "\<forall>d \<in> set [0..<16]. hexDigitValue (hexDigitChar d) = Some (int d)"
    by (simp add: upt_rec hexDigitValue_def hexDigitChar_def)
  assume "d < 16"
  then have "d \<in> set [0..<16]" by simp
  with all show ?thesis by (rule bspec)
qed

lemma hexDigits_value:
  "hexDigits n \<noteq> [] \<and> (\<forall>c \<in> set (hexDigits n). hexDigitValue c \<noteq> None)
   \<and> foldl (\<lambda>acc c. 16 * acc + the (hexDigitValue c)) 0 (hexDigits n) = int n"
proof (induction n rule: hexDigits.induct)
  case (1 n)
  show ?case
  proof (cases "n < 16")
    case True
    then show ?thesis
      by (simp add: hexDigits.simps[of n] hexDigitValue_hexDigitChar)
  next
    case False
    have d: "hexDigitValue (hexDigitChar (n mod 16)) = Some (int (n mod 16))"
      by (rule hexDigitValue_hexDigitChar) simp
    from "1.IH"[OF False] False d show ?thesis
      by (simp add: hexDigits.simps[of n] zmod_int zdiv_int)
  qed
qed

lemma parseInt16_hexDigits: "parseInt16 (''0x'' @ hexDigits n) = Some (toNumber (int n))"
proof -
  note v = hexDigits_value[of n]
  from v have all: "takeWhile (\<lambda>c. hexDigitValue c \<noteq> None) (hexDigits n) = hexDigits n"
    by (simp add: takeWhile_eq_all_conv)
  have "parseInt16 (''0x'' @ hexDigits n) =
        (if takeWhile (\<lambda>c. hexDigitValue c \<noteq> None) (hexDigits n) = [] then None
         else Some (toNumber (foldl (\<lambda>acc c. 16 * acc + the (hexDigitValue c)) 0
                       (takeWhile (\<lambda>c. hexDigitValue c \<noteq> None) (hexDigits n)))))"
    by (simp add: parseInt16_def isStrWhiteSpaceChar_def Let_def del: not_None_eq)
  also have "\<dots> = Some (toNumber (int n))"
    unfolding all using v by simp
  finally show ?thesis .
qed

lemma parseInt16_examples:
  "parseInt16 ''0x7'' = Some (Finite 7)" "parseInt16 ''0'' = Some (Finite 0)"
  "parseInt16 ''zz'' = None"
  "parseInt16 ''0x20000000000003'' = Some (Finite 0x20000000000004)"
  by (simp_all add: parseInt16_def hexDigitValue_def isStrWhiteSpaceChar_def toNumber_def
      doubleOfInt_def roundNat_def ulp_numeral Let_def)

section \<open>Properties of CompactRemapTable\<close>

lemma wf_from_mono: "wf_from lb rs \<Longrightarrow> lb' \<le> lb \<Longrightarrow> wf_from lb' rs"
  by (cases "(lb, rs)" rule: wf_from.cases) auto

lemma wf_from_insert_run:
  "wf_from lb rs \<Longrightarrow> lb \<le> s \<Longrightarrow> wf_from lb (insert_run s t rs)"
  by (induction s t rs arbitrary: lb rule: insert_run.induct) (auto elim: wf_from_mono)

lemma get_runs_below: "wf_from lb rs \<Longrightarrow> x < lb \<Longrightarrow> get_runs x rs = None"
  by (cases "(lb, rs)" rule: wf_from.cases) auto

lemma get_insert_run:
  "wf_from lb rs \<Longrightarrow> get_runs x (insert_run s t rs) = (if x = s then Some t else get_runs x rs)"
  by (induction s t rs arbitrary: lb rule: insert_run.induct) (auto simp: get_runs_below)

lemma wf_from_coalesce: "wf_from lb rs \<Longrightarrow> wf_from lb (coalesce rs)"
  by (induction rs arbitrary: lb rule: coalesce.induct) (auto simp: add.assoc)

lemma get_coalesce_below:
  "wf_from lb rs \<Longrightarrow> x < lb \<Longrightarrow> get_runs x (coalesce rs) = None"
  using wf_from_coalesce get_runs_below by blast

lemma get_coalesce: "wf_from lb rs \<Longrightarrow> get_runs x (coalesce rs) = get_runs x rs"
proof (induction rs arbitrary: lb rule: coalesce.induct)
  case (1 f g l f' g' l' rs)
  show ?case
  proof (cases "f' = f + l \<and> g' = g + l")
    case True
    with "1.prems" have wf: "wf_from lb (Run f g (l + l') # rs)"
      by (simp add: add.assoc)
    from True "1.IH"(1)[OF True wf] "1.prems" show ?thesis
      by (auto simp: get_runs_below)
  next
    case False
    from "1.prems" have wf: "wf_from (f + l) (Run f' g' l' # rs)" by simp
    have below: "x < f' \<Longrightarrow> get_runs x (coalesce (Run f' g' l' # rs)) = None"
      using get_coalesce_below[of f' "Run f' g' l' # rs" x] "1.prems" by simp
    from False "1.IH"(2)[OF False wf] below show ?thesis
      by auto
  qed
qed simp_all

lemma wf_from_head: "wf_from lb (Run f g l # rs) = (lb \<le> f \<and> wf_from f (Run f g l # rs))"
  by auto

lemma wf_runs_iff: "wf_runs rs = (\<exists>lb. wf_from lb rs)"
proof (cases rs)
  case Nil
  then show ?thesis by (simp add: wf_runs_def)
next
  case (Cons r rs')
  then show ?thesis by (cases r) (auto simp: wf_runs_def)
qed


lemma wf_runs_remap: "wf_runs table \<Longrightarrow> wf_runs (remap s t table)"
proof -
  assume "wf_runs table"
  then obtain lb where "wf_from lb table" by (auto simp: wf_runs_iff)
  then have "wf_from (min lb s) table" by (rule wf_from_mono) simp
  then have "wf_from (min lb s) (coalesce (insert_run s t table))"
    by (intro wf_from_coalesce wf_from_insert_run) simp_all
  then show ?thesis unfolding remap_def wf_runs_iff by blast
qed

lemma get_remap:
  "wf_runs table \<Longrightarrow> table_get (remap s t table) x = (if x = s then Some t else table_get table x)"
proof -
  assume "wf_runs table"
  then obtain lb where wf: "wf_from lb table" by (auto simp: wf_runs_iff)
  then have "wf_from (min lb s) table" by (rule wf_from_mono) simp
  then have "wf_from (min lb s) (insert_run s t table)"
    by (intro wf_from_insert_run) simp_all
  then have "get_runs x (coalesce (insert_run s t table)) = get_runs x (insert_run s t table)"
    by (rule get_coalesce)
  with wf show ?thesis
    by (simp add: remap_def table_get_def get_insert_run)
qed

lemma get_runs_covered:
  "wf_from lb rs \<Longrightarrow> r \<in> set rs \<Longrightarrow> run_from r \<le> s \<Longrightarrow> s < run_from r + run_length r
   \<Longrightarrow> get_runs s rs = Some (run_to r + (s - run_from r))"
proof (induction rs arbitrary: lb)
  case Nil
  then show ?case by simp
next
  case (Cons a rs)
  obtain f g l where a: "a = Run f g l" by (cases a)
  show ?case
  proof (cases "r = a")
    case True
    with a Cons.prems show ?thesis by auto
  next
    case False
    with Cons.prems have mem: "r \<in> set rs" by simp
    from Cons.prems a have wf: "wf_from (f + l) rs" by simp
    have "get_runs s rs = Some (run_to r + (s - run_from r))"
      using Cons.IH[OF wf mem] Cons.prems by simp
    moreover have "f + l \<le> s"
      using get_runs_below[OF wf, of s] calculation by (cases "s < f + l") auto
    ultimately show ?thesis using a Cons.prems by auto
  qed
qed

lemma get_runs_uncovered:
  "\<forall>r\<in>set rs. \<not> (run_from r \<le> s \<and> s < run_from r + run_length r) \<Longrightarrow> get_runs s rs = None"
  by (induction s rs rule: get_runs.induct) auto

lemma filter_cover_below:
  "wf_from lb rs \<Longrightarrow> s < lb
   \<Longrightarrow> filter (\<lambda>r. run_from r \<le> s \<and> s \<le> run_from r + run_length r - 1) rs = []"
proof (induction rs arbitrary: lb)
  case Nil
  then show ?case by simp
next
  case (Cons a rs)
  obtain f g l where a: "a = Run f g l" by (cases a)
  from Cons.prems a have "wf_from (f + l) rs" "s < f + l" by auto
  from Cons.IH[OF this] Cons.prems a show ?case by auto
qed

lemma remapSql_get_runs:
  "wf_from lb rs \<Longrightarrow> remapSql (Some s) rs = get_runs s rs"
proof (induction rs arbitrary: lb)
  case Nil
  then show ?case by (simp add: remapSql_def)
next
  case (Cons a rs)
  obtain f g l where a: "a = Run f g l" by (cases a)
  from Cons.prems a have wf: "wf_from (f + l) rs" by simp
  show ?case
  proof (cases "s < f + l")
    case True
    from filter_cover_below[OF wf True] a True show ?thesis
      by (auto simp: remapSql_def)
  next
    case False
    with a have "remapSql (Some s) (a # rs) = remapSql (Some s) rs"
      by (simp add: remapSql_def)
    with Cons.IH[OF wf] a False Cons.prems show ?thesis
      by simp
  qed
qed

lemma remapSql_table_get:
  "wf_runs table \<Longrightarrow> remapSql (Some s) (giveSqliteTheTable table) = table_get table s"
  by (auto simp: wf_runs_iff giveSqliteTheTable_def runs_def table_get_def remapSql_get_runs)

section \<open>Properties of the sorted multiwalk\<close>

lemma remapInstance_exact:
  "0 \<le> n \<Longrightarrow> n < 2 ^ 53 \<Longrightarrow> remapInstance x (T, n) = (remap x n T, n + 1)"
  by (simp add: remapInstance_def doubleOfInt_exact)


lemma Math_min_Finite_le:
  "Finite x = Math_min (Math_min a b) c
   \<Longrightarrow> (\<forall>y. a = Finite y \<longrightarrow> x \<le> y) \<and> (\<forall>y. b = Finite y \<longrightarrow> x \<le> y) \<and> (\<forall>y. c = Finite y \<longrightarrow> x \<le> y)"
  by (cases a; cases b; cases c) auto

lemma Math_min_infinite:
  "POSITIVE_INFINITY = Math_min (Math_min a b) c
   \<Longrightarrow> a = POSITIVE_INFINITY \<and> b = POSITIVE_INFINITY \<and> c = POSITIVE_INFINITY"
  by (cases a; cases b; cases c) auto

lemma Math_min_cases:
  "Math_min (Math_min a b) c = a \<or> Math_min (Math_min a b) c = b \<or> Math_min (Math_min a b) c = c"
  by (cases a; cases b; cases c) (auto simp: min_def)

lemma currentOrInfinity_Finite:
  "currentOrInfinity xs = Finite v \<Longrightarrow> \<exists>x rest. xs = x # rest \<and> v = doubleOfInt x"
  by (cases xs) (auto simp: currentOrInfinity_def)

lemma currentOrInfinity_infinite: "currentOrInfinity xs = POSITIVE_INFINITY \<Longrightarrow> xs = []"
  by (cases xs) (auto simp: currentOrInfinity_def)

lemma currentOrInfinity_not_negative: "currentOrInfinity xs \<noteq> NEGATIVE_INFINITY"
  by (cases xs) (auto simp: currentOrInfinity_def)

lemma mergeLoop_cases:
  assumes run: "mergeLoop m u r st = Inr st'"
  obtains
    (finished) "m = []" "u = []" "r = []" "st' = st"
  | (multiAspect) x rest where "m = x # rest"
      "Finite (doubleOfInt x)
         = Math_min (Math_min (currentOrInfinity m) (currentOrInfinity u)) (currentOrInfinity r)"
      "mergeLoop rest u r (remapInstance (doubleOfInt x) st) = Inr st'"
  | (uniqueAspect) x rest where "u = x # rest"
      "Finite (doubleOfInt x)
         = Math_min (Math_min (currentOrInfinity m) (currentOrInfinity u)) (currentOrInfinity r)"
      "mergeLoop m rest r (remapInstance (doubleOfInt x) st) = Inr st'"
  | (rel) x rest where "r = x # rest"
      "Finite (doubleOfInt x)
         = Math_min (Math_min (currentOrInfinity m) (currentOrInfinity u)) (currentOrInfinity r)"
      "mergeLoop m u rest (remapInstance (doubleOfInt x) st) = Inr st'"
proof -
  let ?ma = "currentOrInfinity m" and ?ua = "currentOrInfinity u" and ?ra = "currentOrInfinity r"
  let ?min = "Math_min (Math_min ?ma ?ua) ?ra"
  note unfold = mergeLoop.simps[of m u r st, unfolded Let_def]
  show thesis
  proof (cases "?ma = POSITIVE_INFINITY \<and> ?ua = POSITIVE_INFINITY \<and> ?ra = POSITIVE_INFINITY")
    case True
    then have "m = []" "u = []" "r = []"
      by (simp_all add: currentOrInfinity_infinite)
    moreover from run have "st' = st"
      unfolding unfold if_P[OF True] by simp
    ultimately show thesis by (rule finished)
  next
    case notdone: False
    have "?min \<noteq> NEGATIVE_INFINITY"
      using Math_min_cases[of ?ma ?ua ?ra] currentOrInfinity_not_negative[of m]
        currentOrInfinity_not_negative[of u] currentOrInfinity_not_negative[of r]
      by (elim disjE) simp_all
    moreover have "?min \<noteq> POSITIVE_INFINITY"
      using Math_min_infinite[of ?ma ?ua ?ra] notdone by (cases ?min) auto
    ultimately obtain v where v: "?min = Finite v"
      by (cases ?min) auto
    have distinct: "\<not> \<not> headsDistinct [?ua, ?ra, ?ma]"
    proof
      assume c: "\<not> headsDistinct [?ua, ?ra, ?ma]"
      from run show False
        unfolding unfold if_not_P[OF notdone] if_P[OF c] by simp
    qed
    note unfold2 = unfold[unfolded if_not_P[OF notdone] if_not_P[OF distinct]]
    show thesis
    proof (cases "?ma = ?min")
      case True
      with v obtain x rest where m: "m = x # rest" and vx: "v = doubleOfInt x"
        using currentOrInfinity_Finite[of m v] by auto
      from run have "(case m of [] \<Rightarrow> Inr st
                      | x # rest \<Rightarrow> mergeLoop rest u r (remapInstance (doubleOfInt x) st)) = Inr st'"
        unfolding unfold2 if_P[OF True] .
      then have "mergeLoop rest u r (remapInstance (doubleOfInt x) st) = Inr st'"
        by (simp add: m)
      with m v vx show thesis by (intro multiAspect[of x rest]) simp_all
    next
      case notm: False
      show thesis
      proof (cases "?ua = ?min")
        case True
        with v obtain x rest where u: "u = x # rest" and vx: "v = doubleOfInt x"
          using currentOrInfinity_Finite[of u v] by auto
        from run have "(case u of [] \<Rightarrow> Inr st
                      | x # rest \<Rightarrow> mergeLoop m rest r (remapInstance (doubleOfInt x) st)) = Inr st'"
          unfolding unfold2 if_not_P[OF notm] if_P[OF True] .
        then have "mergeLoop m rest r (remapInstance (doubleOfInt x) st) = Inr st'"
          by (simp add: u)
        with u v vx show thesis by (intro uniqueAspect[of x rest]) simp_all
      next
        case notu: False
        with notm have "?ra = ?min" using Math_min_cases[of ?ma ?ua ?ra] by auto
        with v obtain x rest where r: "r = x # rest" and vx: "v = doubleOfInt x"
          using currentOrInfinity_Finite[of r v] by auto
        from run have "(case r of [] \<Rightarrow> Inr st
                      | x # rest \<Rightarrow> mergeLoop m u rest (remapInstance (doubleOfInt x) st)) = Inr st'"
          unfolding unfold2 if_not_P[OF notm] if_not_P[OF notu] .
        then have "mergeLoop m u rest (remapInstance (doubleOfInt x) st) = Inr st'"
          by (simp add: r)
        with r v vx show thesis by (intro rel[of x rest]) simp_all
      qed
    qed
  qed
qed

lemma mergeLoop_invariant:
  assumes "mergeLoop m u r st = Inr st'"
    and "P (length m + length u + length r) st"
    and "\<And>k x s. P (Suc k) s \<Longrightarrow> P k (remapInstance x s)"
  shows "P 0 st'"
  using assms(1,2)
proof (induction "length m + length u + length r" arbitrary: m u r st rule: less_induct)
  case less
  from less.prems(1) show ?case
  proof (cases rule: mergeLoop_cases)
    case finished
    with less.prems show ?thesis by simp
  next
    case (multiAspect x rest)
    from less.prems(2) multiAspect(1)
    have "P (Suc (length rest + length u + length r)) st" by simp
    from assms(3)[OF this]
    have "P (length rest + length u + length r) (remapInstance (doubleOfInt x) st)" .
    from less.hyps[OF _ multiAspect(3) this] multiAspect(1) show ?thesis by simp
  next
    case (uniqueAspect x rest)
    from less.prems(2) uniqueAspect(1)
    have "P (Suc (length m + length rest + length r)) st" by simp
    from assms(3)[OF this]
    have "P (length m + length rest + length r) (remapInstance (doubleOfInt x) st)" .
    from less.hyps[OF _ uniqueAspect(3) this] uniqueAspect(1) show ?thesis by simp
  next
    case (rel x rest)
    from less.prems(2) rel(1)
    have "P (Suc (length m + length u + length rest)) st" by simp
    from assms(3)[OF this]
    have "P (length m + length u + length rest) (remapInstance (doubleOfInt x) st)" .
    from less.hyps[OF _ rel(3) this] rel(1) show ?thesis by simp
  qed
qed


lemma mergeLoop_counter:
  assumes "mergeLoop m u r st = Inr st'"
    and "0 \<le> snd st" and "snd st + int (length m + length u + length r) \<le> 2 ^ 53"
  shows "snd st' = snd st + int (length m + length u + length r)"
proof -
  let ?c = "snd st + int (length m + length u + length r)"
  let ?P = "\<lambda>k (s :: CompactRemapTable \<times> int). 0 \<le> snd s \<and> snd s + int k = ?c"
  have "?P 0 st'"
  proof (rule mergeLoop_invariant[OF assms(1), where P = ?P])
    show "?P (length m + length u + length r) st" using assms by simp
  next
    fix k x s
    assume p: "?P (Suc k) s"
    obtain T n where s: "s = (T, n)" by (cases s)
    from p s assms(3) have n: "0 \<le> n" "n < 2 ^ 53" by simp_all
    from remapInstance_exact[OF n, of x T] p s
    show "?P k (remapInstance x s)" by simp
  qed
  then show ?thesis by simp
qed


lemma heads_differ:
  "doubleOfInt ` set a \<inter> doubleOfInt ` set b = {} \<Longrightarrow>
   currentOrInfinity a = POSITIVE_INFINITY \<or> currentOrInfinity b = POSITIVE_INFINITY
   \<or> currentOrInfinity a \<noteq> currentOrInfinity b"
  by (cases a; cases b) (auto simp: currentOrInfinity_def)

lemma mergeLoop_completes:
  assumes "doubleOfInt ` set m \<inter> doubleOfInt ` set u = {}"
    and "doubleOfInt ` set m \<inter> doubleOfInt ` set r = {}"
    and "doubleOfInt ` set u \<inter> doubleOfInt ` set r = {}"
  shows "\<exists>st'. mergeLoop m u r st = Inr st'"
  using assms
proof (induction "length m + length u + length r" arbitrary: m u r st rule: less_induct)
  case less
  let ?ma = "currentOrInfinity m" and ?ua = "currentOrInfinity u" and ?ra = "currentOrInfinity r"
  let ?min = "Math_min (Math_min ?ma ?ua) ?ra"
  note unfold = mergeLoop.simps[of m u r st, unfolded Let_def]
  show ?case
  proof (cases "?ma = POSITIVE_INFINITY \<and> ?ua = POSITIVE_INFINITY \<and> ?ra = POSITIVE_INFINITY")
    case True
    show ?thesis unfolding unfold if_P[OF True] by simp
  next
    case notdone: False
    have mu: "?ma = POSITIVE_INFINITY \<or> ?ua = POSITIVE_INFINITY \<or> ?ma \<noteq> ?ua"
      by (rule heads_differ[OF less.prems(1)])
    have mr: "?ma = POSITIVE_INFINITY \<or> ?ra = POSITIVE_INFINITY \<or> ?ma \<noteq> ?ra"
      by (rule heads_differ[OF less.prems(2)])
    have ur: "?ua = POSITIVE_INFINITY \<or> ?ra = POSITIVE_INFINITY \<or> ?ua \<noteq> ?ra"
      by (rule heads_differ[OF less.prems(3)])
    from mu mr ur have distinct: "\<not> \<not> headsDistinct [?ua, ?ra, ?ma]"
      by auto
    note unfold2 = unfold[unfolded if_not_P[OF notdone] if_not_P[OF distinct]]
    show ?thesis
    proof (cases "?ma = ?min")
      case True
      show ?thesis
      proof (cases m)
        case Nil
        show ?thesis unfolding unfold2 if_P[OF True] by (simp add: Nil)
      next
        case (Cons x rest)
        have "\<exists>st'. mergeLoop rest u r (remapInstance (doubleOfInt x) st) = Inr st'"
          by (rule less.hyps) (use Cons less.prems in auto)
        then show ?thesis unfolding unfold2 if_P[OF True] by (simp add: Cons)
      qed
    next
      case notm: False
      show ?thesis
      proof (cases "?ua = ?min")
        case True
        show ?thesis
        proof (cases u)
          case Nil
          show ?thesis unfolding unfold2 if_not_P[OF notm] if_P[OF True] by (simp add: Nil)
        next
          case (Cons x rest)
          have "\<exists>st'. mergeLoop m rest r (remapInstance (doubleOfInt x) st) = Inr st'"
            by (rule less.hyps) (use Cons less.prems in auto)
          then show ?thesis
            unfolding unfold2 if_not_P[OF notm] if_P[OF True] by (simp add: Cons)
        qed
      next
        case notu: False
        show ?thesis
        proof (cases r)
          case Nil
          show ?thesis
            unfolding unfold2 if_not_P[OF notm] if_not_P[OF notu] by (simp add: Nil)
        next
          case (Cons x rest)
          have "\<exists>st'. mergeLoop m u rest (remapInstance (doubleOfInt x) st) = Inr st'"
            by (rule less.hyps) (use Cons less.prems in auto)
          then show ?thesis
            unfolding unfold2 if_not_P[OF notm] if_not_P[OF notu] by (simp add: Cons)
        qed
      qed
    qed
  qed
qed

lemma alloc_between_empty: "wf_runs T \<Longrightarrow> alloc_between {} T n T n"
  by (simp add: alloc_between_def)

lemma alloc_betweenD:
  assumes "alloc_between S T n T' n'"
  shows "wf_runs T'" "n \<le> n'"
    "\<And>y. y \<notin> S \<Longrightarrow> table_get T' y = table_get T y"
    "\<And>y. y \<in> S \<Longrightarrow> \<exists>t. table_get T' y = Some t \<and> n \<le> t \<and> t < n'"
    "\<And>a b t1 t2. a \<in> S \<Longrightarrow> b \<in> S \<Longrightarrow> a < b \<Longrightarrow> table_get T' a = Some t1
        \<Longrightarrow> table_get T' b = Some t2 \<Longrightarrow> t1 < t2"
proof -
  from assms have c: "wf_runs T' \<and> n \<le> n'
      \<and> (\<forall>x. x \<notin> S \<longrightarrow> table_get T' x = table_get T x)
      \<and> (\<forall>x\<in>S. \<exists>t. table_get T' x = Some t \<and> n \<le> t \<and> t < n')
      \<and> (\<forall>x\<in>S. \<forall>y\<in>S. x < y \<longrightarrow>
            (\<forall>t1 t2. table_get T' x = Some t1 \<and> table_get T' y = Some t2 \<longrightarrow> t1 < t2))"
    unfolding alloc_between_def .
  note c1 = c[THEN conjunct1] and c2 = c[THEN conjunct2, THEN conjunct1]
    and c3 = c[THEN conjunct2, THEN conjunct2, THEN conjunct1]
    and c4 = c[THEN conjunct2, THEN conjunct2, THEN conjunct2, THEN conjunct1]
    and c5 = c[THEN conjunct2, THEN conjunct2, THEN conjunct2, THEN conjunct2]
  show "wf_runs T'" by (rule c1)
  show "n \<le> n'" by (rule c2)
  show "\<And>y. y \<notin> S \<Longrightarrow> table_get T' y = table_get T y"
    using c3[THEN spec] by (rule mp)
  show "\<And>y. y \<in> S \<Longrightarrow> \<exists>t. table_get T' y = Some t \<and> n \<le> t \<and> t < n'"
    using c4 by (rule bspec)
  fix a b t1 t2
  assume a: "a \<in> S" "b \<in> S" "a < b" "table_get T' a = Some t1" "table_get T' b = Some t2"
  from c5 a(1) have "\<forall>y\<in>S. a < y \<longrightarrow>
            (\<forall>t1 t2. table_get T' a = Some t1 \<and> table_get T' y = Some t2 \<longrightarrow> t1 < t2)"
    by (rule bspec)
  from this a(2) have "a < b \<longrightarrow>
            (\<forall>t1 t2. table_get T' a = Some t1 \<and> table_get T' b = Some t2 \<longrightarrow> t1 < t2)"
    by (rule bspec)
  with a(3,4,5) show "t1 < t2" by simp
qed

lemma alloc_between_step:
  assumes wf: "wf_runs T"
    and rest: "alloc_between S (remap x n T) (n + 1) T' n'"
    and least: "\<forall>y\<in>S. x \<le> y"
  shows "alloc_between (insert x S) T n T' n'"
proof -
  have g: "table_get (remap x n T) y = (if y = x then Some n else table_get T y)" for y
    using get_remap[OF wf] by simp
  note wf' = alloc_betweenD(1)[OF rest] and le = alloc_betweenD(2)[OF rest]
    and frame = alloc_betweenD(3)[OF rest] and range = alloc_betweenD(4)[OF rest]
    and mono = alloc_betweenD(5)[OF rest]
  have atx: "x \<notin> S \<Longrightarrow> table_get T' x = Some n"
    using frame[of x] g by simp
  have range': "\<exists>t. table_get T' y = Some t \<and> n \<le> t \<and> t < n'" if "y \<in> insert x S" for y
  proof (cases "y \<in> S")
    case True
    from range[OF this] obtain t where "table_get T' y = Some t" "n + 1 \<le> t" "t < n'" by blast
    then show ?thesis by simp
  next
    case False
    with that have "y = x" by simp
    with False atx le show ?thesis by simp
  qed
  have mono': "t1 < t2"
    if "a \<in> insert x S" "b \<in> insert x S" "a < b"
       "table_get T' a = Some t1" "table_get T' b = Some t2" for a b t1 t2
  proof (cases "a \<in> S"; cases "b \<in> S")
    assume "a \<in> S" "b \<in> S"
    from mono[OF this that(3,4,5)] show ?thesis .
  next
    assume a: "a \<notin> S" and b: "b \<in> S"
    with that have "a = x" by simp
    with a atx that have "t1 = n" by simp
    moreover from range[OF b] that have "n + 1 \<le> t2" by simp
    ultimately show ?thesis by simp
  next
    assume a: "a \<in> S" and b: "b \<notin> S"
    with that have "b = x" by simp
    moreover from least a have "x \<le> a" by (rule bspec)
    ultimately show ?thesis using that(3) by simp
  next
    assume "a \<notin> S" "b \<notin> S"
    with that(1,2,3) show ?thesis by simp
  qed
  have frame': "table_get T' y = table_get T y" if "y \<notin> insert x S" for y
    using that frame[of y] g by simp
  show ?thesis
    unfolding alloc_between_def
  proof (intro conjI)
    show "wf_runs T'" by (rule wf')
    show "n \<le> n'" using le by simp
    show "\<forall>y. y \<notin> insert x S \<longrightarrow> table_get T' y = table_get T y"
      by (intro allI impI) (rule frame')
    show "\<forall>y\<in>insert x S. \<exists>t. table_get T' y = Some t \<and> n \<le> t \<and> t < n'"
      by (intro ballI) (rule range')
    show "\<forall>a\<in>insert x S. \<forall>b\<in>insert x S. a < b \<longrightarrow>
            (\<forall>t1 t2. table_get T' a = Some t1 \<and> table_get T' b = Some t2 \<longrightarrow> t1 < t2)"
    proof (intro ballI allI impI, elim conjE)
      fix a b t1 t2
      assume "a \<in> insert x S" "b \<in> insert x S" "a < b"
        "table_get T' a = Some t1" "table_get T' b = Some t2"
      then show "t1 < t2" by (rule mono')
    qed
  qed
qed

lemma sorted_head_least:
  "sorted xs \<Longrightarrow> \<forall>y\<in>set xs. doubleOfInt y = y
   \<Longrightarrow> \<forall>y. currentOrInfinity xs = Finite y \<longrightarrow> x \<le> y \<Longrightarrow> \<forall>y\<in>set xs. x \<le> y"
  by (cases xs) (auto simp: currentOrInfinity_def)

lemma min_head_least:
  assumes "Finite x = Math_min (Math_min (currentOrInfinity m) (currentOrInfinity u)) (currentOrInfinity r)"
    and "sorted m" "sorted u" "sorted r"
    and "\<forall>y\<in>set m. doubleOfInt y = y" "\<forall>y\<in>set u. doubleOfInt y = y"
      "\<forall>y\<in>set r. doubleOfInt y = y"
  shows "\<forall>y\<in>set m \<union> set u \<union> set r. x \<le> y"
proof -
  note le = Math_min_Finite_le[OF assms(1)]
  have "\<forall>y\<in>set m. x \<le> y"
    by (rule sorted_head_least[OF assms(2) assms(5)]) (rule le[THEN conjunct1])
  moreover have "\<forall>y\<in>set u. x \<le> y"
    by (rule sorted_head_least[OF assms(3) assms(6)]) (rule le[THEN conjunct2, THEN conjunct1])
  moreover have "\<forall>y\<in>set r. x \<le> y"
    by (rule sorted_head_least[OF assms(4) assms(7)]) (rule le[THEN conjunct2, THEN conjunct2])
  ultimately show ?thesis by blast
qed

lemma mergeLoop_sorted:
  assumes "mergeLoop m u r st = Inr st'" "sorted m" "sorted u" "sorted r" "wf_runs (fst st)"
    and "\<forall>y\<in>set m. doubleOfInt y = y" "\<forall>y\<in>set u. doubleOfInt y = y"
      "\<forall>y\<in>set r. doubleOfInt y = y"
    and "0 \<le> snd st" "snd st + int (length m + length u + length r) \<le> 2 ^ 53"
  shows "alloc_between (set m \<union> set u \<union> set r) (fst st) (snd st) (fst st') (snd st')"
  using assms
proof (induction "length m + length u + length r" arbitrary: m u r st rule: less_induct)
  case less
  obtain T n where st: "st = (T, n)" by (cases st)
  with less.prems have wf: "wf_runs T" and n0: "0 \<le> n" by simp_all
  have wf1: "wf_runs (remap x n T)" for x
    using wf_runs_remap[OF wf] by simp
  from less.prems(1) show ?case
  proof (cases rule: mergeLoop_cases)
    case finished
    with wf st show ?thesis by (simp add: alloc_between_empty)
  next
    case (multiAspect x0 rest)
    from less.prems(6) multiAspect(1) have x: "doubleOfInt x0 = x0"
      and ex: "\<forall>y\<in>set rest. doubleOfInt y = y" by simp_all
    from less.prems(10) multiAspect(1) st have n1: "n < 2 ^ 53"
      and bound: "(n + 1) + int (length rest + length u + length r) \<le> 2 ^ 53" by simp_all
    note rm = remapInstance_exact[OF n0 n1]
    from multiAspect(3) have run: "mergeLoop rest u r (remap x0 n T, n + 1) = Inr st'"
      by (simp add: x st rm)
    from less.prems multiAspect(1) have srt: "sorted rest" by simp
    have least: "\<forall>y\<in>set rest \<union> set u \<union> set r. x0 \<le> y"
      using min_head_least[OF multiAspect(2)[unfolded x] less.prems(2,3,4,6,7,8)] multiAspect(1)
      by simp
    have "alloc_between (set rest \<union> set u \<union> set r) (remap x0 n T) (n + 1) (fst st') (snd st')"
      using less.hyps[OF _ run srt less.prems(3,4) _ ex less.prems(7,8)] multiAspect(1) wf1 n0 bound
      by simp
    from alloc_between_step[OF wf this least] show ?thesis
      using multiAspect(1) st by simp
  next
    case (uniqueAspect x0 rest)
    from less.prems(7) uniqueAspect(1) have x: "doubleOfInt x0 = x0"
      and ex: "\<forall>y\<in>set rest. doubleOfInt y = y" by simp_all
    from less.prems(10) uniqueAspect(1) st have n1: "n < 2 ^ 53"
      and bound: "(n + 1) + int (length m + length rest + length r) \<le> 2 ^ 53" by simp_all
    note rm = remapInstance_exact[OF n0 n1]
    from uniqueAspect(3) have run: "mergeLoop m rest r (remap x0 n T, n + 1) = Inr st'"
      by (simp add: x st rm)
    from less.prems uniqueAspect(1) have srt: "sorted rest" by simp
    have least: "\<forall>y\<in>set m \<union> set rest \<union> set r. x0 \<le> y"
      using min_head_least[OF uniqueAspect(2)[unfolded x] less.prems(2,3,4,6,7,8)] uniqueAspect(1)
      by simp
    have "alloc_between (set m \<union> set rest \<union> set r) (remap x0 n T) (n + 1) (fst st') (snd st')"
      using less.hyps[OF _ run less.prems(2) srt less.prems(4) _ less.prems(6) ex less.prems(8)]
        uniqueAspect(1) wf1 n0 bound
      by simp
    from alloc_between_step[OF wf this least]
    have "alloc_between (insert x0 (set m \<union> set rest \<union> set r)) T n (fst st') (snd st')" .
    moreover have "insert x0 (set m \<union> set rest \<union> set r) = set m \<union> set u \<union> set r"
      using uniqueAspect(1) by auto
    ultimately show ?thesis using st by simp
  next
    case (rel x0 rest)
    from less.prems(8) rel(1) have x: "doubleOfInt x0 = x0"
      and ex: "\<forall>y\<in>set rest. doubleOfInt y = y" by simp_all
    from less.prems(10) rel(1) st have n1: "n < 2 ^ 53"
      and bound: "(n + 1) + int (length m + length u + length rest) \<le> 2 ^ 53" by simp_all
    note rm = remapInstance_exact[OF n0 n1]
    from rel(3) have run: "mergeLoop m u rest (remap x0 n T, n + 1) = Inr st'"
      by (simp add: x st rm)
    from less.prems rel(1) have srt: "sorted rest" by simp
    have least: "\<forall>y\<in>set m \<union> set u \<union> set rest. x0 \<le> y"
      using min_head_least[OF rel(2)[unfolded x] less.prems(2,3,4,6,7,8)] rel(1)
      by simp
    have "alloc_between (set m \<union> set u \<union> set rest) (remap x0 n T) (n + 1) (fst st') (snd st')"
      using less.hyps[OF _ run less.prems(2,3) srt _ less.prems(6,7) ex] rel(1) wf1 n0 bound
      by simp
    from alloc_between_step[OF wf this least]
    have "alloc_between (insert x0 (set m \<union> set u \<union> set rest)) T n (fst st') (snd st')" .
    moreover have "insert x0 (set m \<union> set u \<union> set rest) = set m \<union> set u \<union> set r"
      using rel(1) by auto
    ultimately show ?thesis using st by simp
  qed
qed

section \<open>Properties of the bulk-insert run\<close>










lemma AList_update_fresh: "k \<notin> fst ` set al \<Longrightarrow> AList.update k v al = al @ [(k, v)]"
  by (induction al) auto

lemma capture_foldl:
  "distinct (map fst (acc @ xs))
   \<Longrightarrow> foldl (\<lambda>result (triggerName, sql). AList.update triggerName sql result) acc xs = acc @ xs"
proof (induction xs arbitrary: acc)
  case Nil
  then show ?case by simp
next
  case (Cons x xs)
  obtain n sql where x: "x = (n, sql)" by (cases x)
  from Cons.prems x have fresh: "n \<notin> fst ` set acc" by auto
  from Cons.prems x have d: "distinct (map fst ((acc @ [(n, sql)]) @ xs))" by auto
  from Cons.IH[OF d] show ?case by (simp add: x AList_update_fresh[OF fresh])
qed

lemma captureTriggers_distinct:
  "distinct (map fst (sqlite_master_triggers db)) \<Longrightarrow> captureTriggers db = sqlite_master_triggers db"
  using capture_foldl[of "[]" "sqlite_master_triggers db"] by (simp add: captureTriggers_def)

lemma capture_foldl_keys:
  "fst ` set (foldl (\<lambda>result (triggerName, sql). AList.update triggerName sql result) acc xs)
     = fst ` set acc \<union> fst ` set xs"
proof (induction xs arbitrary: acc)
  case Nil
  then show ?case by simp
next
  case (Cons x xs)
  obtain n sql where x: "x = (n, sql)" by (cases x)
  have "fst ` set (AList.update n sql acc) = insert n (fst ` set acc)"
    using AList.dom_update[of n sql acc] by simp
  with Cons.IH[of "AList.update n sql acc"] show ?case by (auto simp: x)
qed

lemma captureTriggers_keys:
  "fst ` set (captureTriggers db) = fst ` set (sqlite_master_triggers db)"
  by (simp add: captureTriggers_def capture_foldl_keys)

lemma dropTriggers_triggers:
  "sqlite_master_triggers (dropTriggers trigs db) =
     filter (\<lambda>(n, sql). n \<notin> fst ` set trigs) (sqlite_master_triggers db)"
proof (induction trigs arbitrary: db)
  case Nil
  then show ?case by (simp add: dropTriggers_def)
next
  case (Cons t trigs)
  obtain n sql where t: "t = (n, sql)" by (cases t)
  have step: "dropTriggers (t # trigs) db = dropTriggers trigs (dropTrigger n db)"
    by (simp add: dropTriggers_def t)
  have "sqlite_master_triggers (dropTrigger n db) =
          filter (\<lambda>(n', sql). n' \<noteq> n) (sqlite_master_triggers db)"
    by (simp add: dropTrigger_def)
  with Cons.IH[of "dropTrigger n db"] step show ?case
    by (auto simp: t intro!: filter_cong)
qed

lemma dropTriggers_captured:
  "sqlite_master_triggers (dropTriggers (captureTriggers db) db) = []"
  by (force simp: dropTriggers_triggers captureTriggers_keys filter_empty_conv)

lemma restoreTriggers_triggers:
  "sqlite_master_triggers (restoreTriggers trigs db) = sqlite_master_triggers db @ trigs"
proof (induction trigs arbitrary: db)
  case Nil
  then show ?case by (simp add: restoreTriggers_def)
next
  case (Cons t trigs)
  have "restoreTriggers (t # trigs) db = restoreTriggers trigs (createTrigger t db)"
    by (simp add: restoreTriggers_def)
  with Cons.IH[of "createTrigger t db"] show ?case by (simp add: createTrigger_def)
qed

lemma insertLoop_executed_only:
  "insertLoop se ins target = (res, target') \<Longrightarrow> \<exists>ex. target' = target\<lparr>executed := ex\<rparr>"
proof (induction ins arbitrary: target)
  case Nil
  then have "target' = target\<lparr>executed := executed target\<rparr>" by simp
  then show ?case by blast
next
  case (Cons a ins)
  obtain c i where a: "a = (c, i)" by (cases a)
  show ?case
  proof (cases "se c")
    case None
    with Cons.prems a
    have "insertLoop se ins (target\<lparr>executed := executed target @ [c]\<rparr>) = (res, target')"
      by simp
    from Cons.IH[OF this] obtain ex
      where "target' = target\<lparr>executed := executed target @ [c]\<rparr>\<lparr>executed := ex\<rparr>" by blast
    then have "target' = target\<lparr>executed := ex\<rparr>" by simp
    then show ?thesis by blast
  next
    case (Some m)
    with Cons.prems a have "target' = target\<lparr>executed := executed target\<rparr>" by simp
    then show ?thesis by blast
  qed
qed

lemma bulkInsertTransform_throws:
  "bulkInsertTransform classRemapsReader pe se cache target
     = ((Some (ReferenceError ''transformType''), target), cache)"
  by (simp add: bulkInsertTransform_def transformType_def)

lemma codeSpecRemapSelect_source:
  "codeSpecRemapSelect \<lparr>main_db = source, attached = []\<rparr>
     = Some (leftJoinOnName (bis_CodeSpec source) (bis_CodeSpec source))"
  by (simp add: codeSpecRemapSelect_def tableRef_bis_CodeSpec_def)

lemma rawEmulatedPolymorphicInsertTransform_fails:
  fixes env :: Environment and source target :: IModel and returnRemapper :: bool
  defines "run \<equiv> rawEmulatedPolymorphicInsertTransform env source target returnRemapper"
    and "dropped \<equiv> dropTriggers (captureTriggers target) target"
  shows "\<exists>e failed. run = (Inl e, failed) \<and> main_db failed = dropped
            \<and> defer_foreign_keys failed = True"
proof -
  define wt where "wt = \<lparr>main_db = dropped,
              attached = [(''source'', source)], defer_foreign_keys = True,
              temp_element_remap = [], temp_codespec_remap = [],
              temp_nonElemEntity_remap = [], temp_font_remap = [], executed = []\<rparr>"
  let ?merge = "mergeLoop (sort (bis_ElementMultiAspect source))
      (sort (bis_ElementUniqueAspect source)) (sort (bis_ElementRefersToElements source))
      (rt_nonElemEntity (seedRemapTables (env_fontRemaps env)),
       firstIdAfter (ec_instanceidsequence target))"
  show ?thesis
  proof (cases ?merge)
    case (Inl e)
    then have "run = (Inl e, wt)"
      by (simp add: run_def wt_def dropped_def rawEmulatedPolymorphicInsertTransform_def Let_def)
    moreover have "main_db wt = dropped" "defer_foreign_keys wt = True"
      by (simp_all add: wt_def)
    ultimately show ?thesis by blast
  next
    case (Inr st)
    obtain nonElemEntity n' where st: "st = (nonElemEntity, n')" by (cases st)
    let ?loaded = "wt\<lparr>temp_element_remap :=
          giveSqliteTheTable (elementRemapTable (env_fontRemaps env) source target),
        temp_codespec_remap := giveSqliteTheTable (fst (codeSpecRemapLoop
          (leftJoinOnName (bis_CodeSpec source) (bis_CodeSpec source))
          (rt_codespec (seedRemapTables (env_fontRemaps env)), nextCodeSpecIdOf target))),
        temp_nonElemEntity_remap := giveSqliteTheTable nonElemEntity,
        temp_font_remap := giveSqliteTheTable (rt_font (seedRemapTables (env_fontRemaps env)))\<rparr>"
    from Inr st have "run = (Inl (ReferenceError ''transformType''), ?loaded)"
      by (simp add: run_def wt_def dropped_def rawEmulatedPolymorphicInsertTransform_def Let_def
          codeSpecRemapSelect_source bulkInsertTransform_throws)
    moreover have "main_db ?loaded = dropped" "defer_foreign_keys ?loaded = True"
      by (simp_all add: wt_def)
    ultimately show ?thesis by blast
  qed
qed


lemma example_failed_run:
  "rawEmulatedPolymorphicInsertTransform example_env
      (example_source\<lparr>bis_ElementUniqueAspect := [5]\<rparr>) example_target False
   = (Inl AssertionError,
      \<lparr>main_db = example_target\<lparr>sqlite_master_triggers := []\<rparr>,
       attached = [(''source'', example_source\<lparr>bis_ElementUniqueAspect := [5]\<rparr>)],
       defer_foreign_keys = True, temp_element_remap = [], temp_codespec_remap = [],
       temp_nonElemEntity_remap = [], temp_font_remap = [], executed = []\<rparr>)"
  by (simp add: rawEmulatedPolymorphicInsertTransform_def example_env_def example_source_def
      example_target_def Let_def mergeLoop.simps currentOrInfinity_def seedRemapTables_def
      captureTriggers_def dropTriggers_def dropTrigger_def doubleOfInt_exact firstIdAfter_def)

lemma example_run:
  "rawEmulatedPolymorphicInsertTransform example_env example_source example_target True
   = (Inl (ReferenceError ''transformType''),
      \<lparr>main_db = example_target\<lparr>sqlite_master_triggers := []\<rparr>,
       attached = [(''source'', example_source)],
       defer_foreign_keys = True,
       temp_element_remap = [Run 0 0 2, Run 14 14 1, Run 16 16 1, Run 17 33 1],
       temp_codespec_remap = [Run 0 0 1, Run 5 5 1],
       temp_nonElemEntity_remap = [Run 0 0 1, Run 1 33 5], temp_font_remap = [Run 0 0 1],
       executed = []\<rparr>)"
  by (simp add: rawEmulatedPolymorphicInsertTransform_def example_env_def example_source_def
      example_target_def Let_def mergeLoop.simps currentOrInfinity_def seedRemapTables_def
      remapInstance_def remap_def codeSpecRemapSelect_source bulkInsertTransform_throws
      captureTriggers_def dropTriggers_def dropTrigger_def
      elementRemapTable_def sourceElemRemapSelect_def bootstrapIds_def giveSqliteTheTable_def
      runs_def leftJoinOnName_def nextCodeSpecIdOf_def maxCodeSpecId_def doubleOfInt_exact
      firstIdAfter_def)





lemma insertLoop_ok:
  "\<forall>c\<in>fst ` set ins. se c = None
   \<Longrightarrow> insertLoop se ins t = (None, t\<lparr>executed := executed t @ map fst ins\<rparr>)"
proof (induction ins arbitrary: t)
  case Nil
  then show ?case by simp
next
  case (Cons a ins)
  obtain c i where a: "a = (c, i)" by (cases a)
  from Cons.prems a have "se c = None" "\<forall>c\<in>fst ` set ins. se c = None" by auto
  with Cons.IH[of "t\<lparr>executed := executed t @ [c]\<rparr>"] show ?case
    by (simp add: a)
qed

section \<open>Properties of the two passes\<close>




































section \<open>Results about the remap tables and the allocation\<close>

text \<open>
  Claim C2, as amended. In a remap table (sorted, disjoint, non-empty runs: the invariant
  that the empty table has and \<open>remap\<close> keeps, see \<open>wf_runs_empty\<close> and \<open>wf_runs_remap\<close>),
  for every run \<open>(from, to, length)\<close> and every source identifier \<open>s\<close> in
  \<open>[from, from + length)\<close>, \<open>get\<close> and the SQL expression \<open>remapSql\<close> over the rows loaded
  from the table both give \<open>to + (s - from)\<close>; for a source identifier that no run covers
  they give the unmapped result. The getter of the \<open>Remapper\<close> answers for the number that
  \<open>parseInt\<close> makes of the identifier it is given: the target as an \<open>Id64String\<close> when a
  run covers that number (\<open>"0"\<close> when the target is \<open>0\<close>), and \<open>"0"\<close> when no run does or
  the text is not a finite number. The hexadecimal text of an identifier up to \<open>2^53\<close> is
  parsed to the identifier itself.
\<close>

theorem remap_table_lookup_correct:
  assumes "wf_runs table"
  shows "(\<forall>r\<in>set (runs table). \<forall>s. run_from r \<le> s \<and> s < run_from r + run_length r \<longrightarrow>
            table_get table s = Some (run_to r + (s - run_from r))
          \<and> remapSql (Some s) (giveSqliteTheTable table) = Some (run_to r + (s - run_from r))
          \<and> (\<forall>ident. parseInt16 ident = Some (Finite s) \<longrightarrow>
                makeGetter table ident =
                  (if run_to r + (s - run_from r) = 0 then ''0''
                   else ''0x'' @ toString16 (run_to r + (s - run_from r)))))
       \<and> (\<forall>s. (\<forall>r\<in>set (runs table). \<not> (run_from r \<le> s \<and> s < run_from r + run_length r)) \<longrightarrow>
            table_get table s = None
          \<and> remapSql (Some s) (giveSqliteTheTable table) = None
          \<and> (\<forall>ident. parseInt16 ident = Some (Finite s) \<longrightarrow> makeGetter table ident = ''0''))
       \<and> (\<forall>ident. (\<forall>s. parseInt16 ident \<noteq> Some (Finite s)) \<longrightarrow> makeGetter table ident = ''0'')
       \<and> (\<forall>n. 0 \<le> n \<and> n \<le> 2 ^ 53 \<longrightarrow> parseInt16 (''0x'' @ toString16 n) = Some (Finite n))"
proof -
  from assms obtain lb where wf: "wf_from lb table" by (auto simp: wf_runs_iff)
  have covered: "table_get table s = Some (run_to r + (s - run_from r))"
    if "r \<in> set (runs table)" "run_from r \<le> s" "s < run_from r + run_length r" for r s
    using get_runs_covered[OF wf, of r s] that by (simp add: runs_def table_get_def)
  have uncovered: "table_get table s = None"
    if "\<forall>r\<in>set (runs table). \<not> (run_from r \<le> s \<and> s < run_from r + run_length r)" for s
    using get_runs_uncovered[of table s] that by (simp add: runs_def table_get_def)
  have a: "\<forall>r\<in>set (runs table). \<forall>s. run_from r \<le> s \<and> s < run_from r + run_length r \<longrightarrow>
            table_get table s = Some (run_to r + (s - run_from r))
          \<and> remapSql (Some s) (giveSqliteTheTable table) = Some (run_to r + (s - run_from r))
          \<and> (\<forall>ident. parseInt16 ident = Some (Finite s) \<longrightarrow>
                makeGetter table ident =
                  (if run_to r + (s - run_from r) = 0 then ''0''
                   else ''0x'' @ toString16 (run_to r + (s - run_from r))))"
    using covered remapSql_table_get[OF assms] by (auto simp: makeGetter_def)
  have b: "\<forall>s. (\<forall>r\<in>set (runs table). \<not> (run_from r \<le> s \<and> s < run_from r + run_length r)) \<longrightarrow>
            table_get table s = None
          \<and> remapSql (Some s) (giveSqliteTheTable table) = None
          \<and> (\<forall>ident. parseInt16 ident = Some (Finite s) \<longrightarrow> makeGetter table ident = ''0'')"
    using uncovered remapSql_table_get[OF assms] by (auto simp: makeGetter_def)
  have c: "\<forall>ident. (\<forall>s. parseInt16 ident \<noteq> Some (Finite s)) \<longrightarrow> makeGetter table ident = ''0''"
    by (auto simp: makeGetter_def split: option.splits Number.splits)
  have d: "\<forall>n. 0 \<le> n \<and> n \<le> 2 ^ 53 \<longrightarrow> parseInt16 (''0x'' @ toString16 n) = Some (Finite n)"
  proof (intro allI impI)
    fix n :: int assume n: "0 \<le> n \<and> n \<le> 2 ^ 53"
    then have "toNumber (int (nat n)) = Finite n" by (simp add: toNumber_exact)
    with n parseInt16_hexDigits[of "nat n"]
    show "parseInt16 (''0x'' @ toString16 n) = Some (Finite n)" by (simp add: toString16_def)
  qed
  from a b c d show ?thesis by (intro conjI)
qed

theorem remap_table_lookup_correct_witness:
  "wf_runs (remap 7 21 (remap 6 20 (remap 0 0 [])))
   \<and> runs (remap 7 21 (remap 6 20 (remap 0 0 []))) = [Run 0 0 1, Run 6 20 2]
   \<and> table_get (remap 7 21 (remap 6 20 (remap 0 0 []))) 7 = Some 21
   \<and> remapSql (Some 7) (giveSqliteTheTable (remap 7 21 (remap 6 20 (remap 0 0 [])))) = Some 21
   \<and> parseInt16 ''0x7'' = Some (Finite 7)
   \<and> makeGetter (remap 7 21 (remap 6 20 (remap 0 0 []))) ''0x7'' = ''0x15''
   \<and> table_get (remap 7 21 (remap 6 20 (remap 0 0 []))) 3 = None
   \<and> remapSql (Some 3) (giveSqliteTheTable (remap 7 21 (remap 6 20 (remap 0 0 [])))) = None
   \<and> parseInt16 ''0x3'' = Some (Finite 3)
   \<and> makeGetter (remap 7 21 (remap 6 20 (remap 0 0 []))) ''0x3'' = ''0''
   \<and> parseInt16 ''zz'' = None
   \<and> makeGetter (remap 7 21 (remap 6 20 (remap 0 0 []))) ''zz'' = ''0''
   \<and> (0 :: int) \<le> 7 \<and> (7 :: int) \<le> 2 ^ 53 \<and> toString16 7 = ''7''"
proof -
  let ?T = "remap 7 21 (remap 6 20 (remap 0 0 []))"
  have T: "?T = [Run 0 0 1, Run 6 20 2]" by (simp add: remap_def)
  have wf: "wf_runs ?T" by (simp add: T wf_runs_def)
  have h: "toString16 21 = ''15''" "toString16 7 = ''7''"
    by (simp_all add: toString16_def hexDigits.simps hexDigitChar_def)
  have p3: "parseInt16 ''0x3'' = Some (Finite 3)" and pz: "parseInt16 ''zz'' = None"
    by (simp_all add: parseInt16_def hexDigitValue_def isStrWhiteSpaceChar_def toNumber_exact)
  note inst = remap_table_lookup_correct[OF wf]
  have b7: "(0 :: int) \<le> 7 \<and> (7 :: int) \<le> 2 ^ 53" by simp
  from inst[THEN conjunct2, THEN conjunct2, THEN conjunct2, THEN spec, of 7, THEN mp, OF b7]
  have p7: "parseInt16 ''0x7'' = Some (Finite 7)" by (simp add: h)
  have mem: "Run 6 20 2 \<in> set (runs ?T)" by (simp add: T runs_def)
  from inst[THEN conjunct1, rule_format, OF mem, of 7] p7
  have c: "table_get ?T 7 = Some 21"
    "remapSql (Some 7) (giveSqliteTheTable ?T) = Some 21"
    "makeGetter ?T ''0x7'' = ''0x15''"
    by (simp_all add: h)
  have unc: "\<forall>r\<in>set (runs ?T). \<not> (run_from r \<le> 3 \<and> 3 < run_from r + run_length r)"
    by (simp add: T runs_def)
  from inst[THEN conjunct2, THEN conjunct1, THEN spec, of 3, THEN mp, OF unc] p3
  have u: "table_get ?T 3 = None" "remapSql (Some 3) (giveSqliteTheTable ?T) = None"
    "makeGetter ?T ''0x3'' = ''0''"
    by simp_all
  have nz: "\<forall>s. parseInt16 ''zz'' \<noteq> Some (Finite s)" by (simp add: pz)
  from inst[THEN conjunct2, THEN conjunct2, THEN conjunct1, THEN spec, of "''zz''", THEN mp, OF nz]
  have z: "makeGetter ?T ''zz'' = ''0''" .
  have r: "runs ?T = [Run 0 0 1, Run 6 20 2]" by (simp add: T runs_def)
  from wf r c(1,2) p7 c(3) u(1,2) p3 u(3) pz z b7 h(2) show ?thesis
    by (intro conjI) simp_all
qed

text \<open>
  Claim C2 as stated has the getter realize the formula at every source identifier. The
  identifier \<open>0x20000000000003\<close> is covered by no run of the table below, and \<open>get\<close> and
  \<open>remapSql\<close> answer that it is unmapped; \<open>parseInt\<close> makes \<open>0x20000000000004\<close> of its
  text, and the getter answers with the target of that other identifier.
\<close>

theorem getter_rounds_identifier_counterexample:
  "wf_runs [Run 0x20000000000004 7 1]
   \<and> table_get [Run 0x20000000000004 7 1] 0x20000000000003 = None
   \<and> remapSql (Some 0x20000000000003) (giveSqliteTheTable [Run 0x20000000000004 7 1]) = None
   \<and> parseInt16 ''0x20000000000003'' = Some (Finite 0x20000000000004)
   \<and> makeGetter [Run 0x20000000000004 7 1] ''0x20000000000003'' = ''0x7''"
proof -
  have p: "parseInt16 ''0x20000000000003'' = Some (Finite 0x20000000000004)"
    by (simp add: parseInt16_def hexDigitValue_def isStrWhiteSpaceChar_def toNumber_def
        doubleOfInt_def roundNat_def ulp_numeral Let_def)
  have h: "toString16 7 = ''7''"
    by (simp add: toString16_def hexDigits.simps hexDigitChar_def)
  have g: "makeGetter [Run 0x20000000000004 7 1] ''0x20000000000003'' = ''0x7''"
    by (simp add: makeGetter_def p table_get_def h)
  have w: "wf_runs [Run 0x20000000000004 7 1]" by (simp add: wf_runs_def)
  have t: "table_get [Run 0x20000000000004 7 1] 0x20000000000003 = None"
    by (simp add: table_get_def)
  have s: "remapSql (Some 0x20000000000003) (giveSqliteTheTable [Run 0x20000000000004 7 1]) = None"
    by (simp add: remapSql_def giveSqliteTheTable_def runs_def)
  from w t s p g show ?thesis by (intro conjI)
qed




text \<open>
  Claim C4, as amended. Given three readers each sorted ascending, identifiers within
  \<open>2^53\<close> and a counter that stays within \<open>2^53\<close> for the rows there are: when the multiwalk
  ends normally it has drawn one target identifier per row from the single counter (the
  counter has advanced by the number of rows), every source identifier of the readers
  is mapped into the range of the counter values drawn, the mapping is strictly
  increasing in the source identifier over the identifiers of the readers, and no other
  identifier of the table has changed. And the multiwalk does end normally when the
  readers have no identifier in common.
\<close>

theorem allocator_monotone:
  assumes "sorted m" "sorted u" "sorted r" "wf_runs table"
    and "\<forall>x\<in>set m \<union> set u \<union> set r. \<bar>x\<bar> \<le> 2 ^ 53"
    and "0 \<le> nextInstanceId"
    and "nextInstanceId + int (length m + length u + length r) \<le> 2 ^ 53"
  shows "(mergeLoop m u r (table, nextInstanceId) = Inr (table', n') \<longrightarrow>
         n' = nextInstanceId + int (length m + length u + length r)
       \<and> (\<forall>x\<in>set m \<union> set u \<union> set r.
             \<exists>t. table_get table' x = Some t \<and> nextInstanceId \<le> t \<and> t < n')
       \<and> (\<forall>x\<in>set m \<union> set u \<union> set r. \<forall>y\<in>set m \<union> set u \<union> set r. x < y \<longrightarrow>
             (\<forall>t1 t2. table_get table' x = Some t1 \<and> table_get table' y = Some t2 \<longrightarrow> t1 < t2))
       \<and> (\<forall>x. x \<notin> set m \<union> set u \<union> set r \<longrightarrow> table_get table' x = table_get table x))
     \<and> (set m \<inter> set u = {} \<and> set m \<inter> set r = {} \<and> set u \<inter> set r = {} \<longrightarrow>
         (\<exists>table'' n''. mergeLoop m u r (table, nextInstanceId) = Inr (table'', n'')))"
proof (rule conjI; rule impI)
  assume run: "mergeLoop m u r (table, nextInstanceId) = Inr (table', n')"
  from assms(5) have ex: "\<forall>y\<in>set m. doubleOfInt y = y" "\<forall>y\<in>set u. doubleOfInt y = y"
    "\<forall>y\<in>set r. doubleOfInt y = y"
    by (simp_all add: doubleOfInt_exact)
  have "alloc_between (set m \<union> set u \<union> set r) table nextInstanceId table' n'"
    using mergeLoop_sorted[OF run assms(1,2,3) _ ex] assms(4,6,7) by simp
  then have a: "(\<forall>x. x \<notin> set m \<union> set u \<union> set r \<longrightarrow> table_get table' x = table_get table x)
      \<and> (\<forall>x\<in>set m \<union> set u \<union> set r.
            \<exists>t. table_get table' x = Some t \<and> nextInstanceId \<le> t \<and> t < n')
      \<and> (\<forall>x\<in>set m \<union> set u \<union> set r. \<forall>y\<in>set m \<union> set u \<union> set r. x < y \<longrightarrow>
            (\<forall>t1 t2. table_get table' x = Some t1 \<and> table_get table' y = Some t2 \<longrightarrow> t1 < t2))"
    unfolding alloc_between_def by (elim conjE) (intro conjI)
  have c: "n' = nextInstanceId + int (length m + length u + length r)"
    using mergeLoop_counter[OF run] assms(6,7) by simp
  show "n' = nextInstanceId + int (length m + length u + length r)
       \<and> (\<forall>x\<in>set m \<union> set u \<union> set r.
             \<exists>t. table_get table' x = Some t \<and> nextInstanceId \<le> t \<and> t < n')
       \<and> (\<forall>x\<in>set m \<union> set u \<union> set r. \<forall>y\<in>set m \<union> set u \<union> set r. x < y \<longrightarrow>
             (\<forall>t1 t2. table_get table' x = Some t1 \<and> table_get table' y = Some t2 \<longrightarrow> t1 < t2))
       \<and> (\<forall>x. x \<notin> set m \<union> set u \<union> set r \<longrightarrow> table_get table' x = table_get table x)"
    by (intro conjI) (rule c, rule a[THEN conjunct2, THEN conjunct1],
        rule a[THEN conjunct2, THEN conjunct2], rule a[THEN conjunct1])
next
  assume d: "set m \<inter> set u = {} \<and> set m \<inter> set r = {} \<and> set u \<inter> set r = {}"
  from assms(5) have ex: "\<forall>y\<in>set m. doubleOfInt y = y" "\<forall>y\<in>set u. doubleOfInt y = y"
    "\<forall>y\<in>set r. doubleOfInt y = y"
    by (simp_all add: doubleOfInt_exact)
  then have i: "doubleOfInt ` set m = set m" "doubleOfInt ` set u = set u"
    "doubleOfInt ` set r = set r"
    by (simp_all add: image_def)
  from d have "\<exists>st'. mergeLoop m u r (table, nextInstanceId) = Inr st'"
    by (intro mergeLoop_completes) (simp_all add: i)
  then show "\<exists>table'' n''. mergeLoop m u r (table, nextInstanceId) = Inr (table'', n'')"
    by auto
qed

theorem allocator_monotone_witness:
  "sorted [2, 5 :: int] \<and> sorted [3 :: int] \<and> sorted [1, 4 :: int] \<and> wf_runs (remap 0 0 [])
   \<and> (0 :: int) \<le> 10
   \<and> (10 :: int) + int (length [2, 5 :: int] + length [3 :: int] + length [1, 4 :: int]) \<le> 2 ^ 53
   \<and> set [2, 5 :: int] \<inter> set [3] = {} \<and> set [2, 5 :: int] \<inter> set [1, 4] = {}
   \<and> set [3 :: int] \<inter> set [1, 4] = {}
   \<and> mergeLoop [2, 5] [3] [1, 4] (remap 0 0 [], 10) = Inr ([Run 0 0 1, Run 1 10 5], 15)
   \<and> (15 :: int) = 10 + int (length [2, 5 :: int] + length [3 :: int] + length [1, 4 :: int])
   \<and> table_get [Run 0 0 1, Run 1 10 5] 3 = Some 12
   \<and> table_get [Run 0 0 1, Run 1 10 5] 4 = Some 13
   \<and> (12 :: int) < 13
   \<and> table_get [Run 0 0 1, Run 1 10 5] 0 = table_get (remap 0 0 []) 0"
proof -
  have run: "mergeLoop [2, 5] [3] [1, 4] (remap 0 0 [], 10) = Inr ([Run 0 0 1, Run 1 10 5], 15)"
    by (simp add: mergeLoop.simps currentOrInfinity_def remapInstance_def remap_def Let_def
        doubleOfInt_exact)
  have wf: "wf_runs (remap 0 0 [])" by (simp add: remap_def wf_runs_def)
  have s: "sorted [2, 5 :: int]" "sorted [3 :: int]" "sorted [1, 4 :: int]" by simp_all
  have b: "\<forall>x\<in>set [2, 5 :: int] \<union> set [3] \<union> set [1, 4]. \<bar>x\<bar> \<le> 2 ^ 53" by simp
  have n: "(0 :: int) \<le> 10"
    "(10 :: int) + int (length [2, 5 :: int] + length [3 :: int] + length [1, 4 :: int]) \<le> 2 ^ 53"
    by simp_all
  have d1: "set [2, 5 :: int] \<inter> set [3] = {}" and d2: "set [2, 5 :: int] \<inter> set [1, 4] = {}"
    and d3: "set [3 :: int] \<inter> set [1, 4] = {}" by simp_all
  note inst = allocator_monotone[OF s wf b n, of "[Run 0 0 1, Run 1 10 5]" 15]
  note props = inst[THEN conjunct1, THEN mp, OF run]
  have g: "table_get [Run 0 0 1, Run 1 10 5] 3 = Some 12"
    "table_get [Run 0 0 1, Run 1 10 5] 4 = Some 13" by (simp_all add: table_get_def)
  have m3: "(3 :: int) \<in> set [2, 5] \<union> set [3] \<union> set [1, 4]"
    and m4: "(4 :: int) \<in> set [2, 5] \<union> set [3] \<union> set [1, 4]" by simp_all
  note mono = props[THEN conjunct2, THEN conjunct2, THEN conjunct1, THEN bspec, OF m3,
      THEN bspec, OF m4, THEN mp, THEN spec, THEN spec, THEN mp, OF _ conjI[OF g]]
  have lt: "(12 :: int) < 13" by (rule mono) simp
  have out: "(0 :: int) \<notin> set [2, 5] \<union> set [3] \<union> set [1, 4]" by simp
  note fr = props[THEN conjunct2, THEN conjunct2, THEN conjunct2, THEN spec, THEN mp, OF out]
  note cnt = props[THEN conjunct1]
  from inst[THEN conjunct2, THEN mp, OF conjI[OF d1 conjI[OF d2 d3]]]
  have "\<exists>table'' n''. mergeLoop [2, 5] [3] [1, 4] (remap 0 0 [], 10) = Inr (table'', n'')" .
  show ?thesis
    by (intro conjI) (rule s(1), rule s(2), rule s(3), rule wf, rule n(1), rule n(2), rule d1,
        rule d2, rule d3, rule run, rule cnt, rule g(1), rule g(2), rule lt, rule fr)
qed

text \<open>
  Claim C4 as stated has the mapping strictly increasing for every counter. From the
  counter value \<open>2^53\<close> the sorted readers below give the source identifiers \<open>3\<close> and \<open>5\<close>
  the same target, and the counter has not advanced by the two rows.
\<close>

theorem allocation_not_increasing_counterexample:
  "sorted [3 :: int] \<and> sorted ([] :: int list) \<and> sorted [5 :: int]
   \<and> mergeLoop [3] [] [5] (remap 0 0 [], 0x20000000000000)
       = Inr ([Run 0 0 1, Run 3 0x20000000000000 1, Run 5 0x20000000000000 1], 0x20000000000000)
   \<and> table_get [Run 0 0 1, Run 3 0x20000000000000 1, Run 5 0x20000000000000 1] 3
       = Some 0x20000000000000
   \<and> table_get [Run 0 0 1, Run 3 0x20000000000000 1, Run 5 0x20000000000000 1] 5
       = Some 0x20000000000000
   \<and> (3 :: int) < 5
   \<and> (0x20000000000000 :: int) \<noteq> 0x20000000000000 + 2"
proof -
  have r: "doubleOfInt 0x20000000000001 = 0x20000000000000"
    by (simp add: doubleOfInt_def roundNat_def ulp_numeral Let_def)
  have m: "mergeLoop [3] [] [5] (remap 0 0 [], 0x20000000000000)
       = Inr ([Run 0 0 1, Run 3 0x20000000000000 1, Run 5 0x20000000000000 1], 0x20000000000000)"
    by (simp add: mergeLoop.simps currentOrInfinity_def remapInstance_def remap_def Let_def
        doubleOfInt_exact r)
  have g: "table_get [Run 0 0 1, Run 3 0x20000000000000 1, Run 5 0x20000000000000 1] 3
       = Some 0x20000000000000"
    "table_get [Run 0 0 1, Run 3 0x20000000000000 1, Run 5 0x20000000000000 1] 5
       = Some 0x20000000000000"
    by (simp_all add: table_get_def)
  from m g show ?thesis by simp
qed

section \<open>Results about the bulk-insert run\<close>




text \<open>
  Claim C7, as amended. The triggers of the target are read and dropped before the
  identifiers are allocated, and the loop at the end of the run creates each of them
  again from the SQL text read (trigger names are distinct in \<open>sqlite_master\<close>, so what
  was read is what there was). Nothing restores them on the way out of a failure: a run
  that ends with an error ends with the triggers of the target still dropped and
  \<open>defer_foreign_keys\<close> still on.
\<close>

theorem triggers_restored_only_at_the_end:
  "(rawEmulatedPolymorphicInsertTransform env source target returnRemapper = (Inl err, failed)
      \<longrightarrow> sqlite_master_triggers (main_db failed) = []
          \<and> defer_foreign_keys failed = True)
   \<and> (distinct (map fst (sqlite_master_triggers target))
      \<longrightarrow> captureTriggers target = sqlite_master_triggers target
          \<and> sqlite_master_triggers (dropTriggers (captureTriggers target) target) = []
          \<and> sqlite_master_triggers
               (restoreTriggers (captureTriggers target)
                  (dropTriggers (captureTriggers target) target))
              = sqlite_master_triggers target)"
proof (rule conjI; rule impI)
  assume fail: "rawEmulatedPolymorphicInsertTransform env source target returnRemapper = (Inl err, failed)"
  with rawEmulatedPolymorphicInsertTransform_fails[of env source target returnRemapper]
  have "main_db failed = dropTriggers (captureTriggers target) target
        \<and> defer_foreign_keys failed = True"
    by (elim exE conjE) simp
  then show "sqlite_master_triggers (main_db failed) = [] \<and> defer_foreign_keys failed = True"
    by (simp add: dropTriggers_captured)
next
  assume d: "distinct (map fst (sqlite_master_triggers target))"
  have c: "captureTriggers target = sqlite_master_triggers target"
    using d by (rule captureTriggers_distinct)
  have e: "sqlite_master_triggers (dropTriggers (captureTriggers target) target) = []"
    by (rule dropTriggers_captured)
  have r: "sqlite_master_triggers
               (restoreTriggers (captureTriggers target)
                  (dropTriggers (captureTriggers target) target))
              = sqlite_master_triggers target"
    unfolding restoreTriggers_triggers e using c by simp
  show "captureTriggers target = sqlite_master_triggers target
          \<and> sqlite_master_triggers (dropTriggers (captureTriggers target) target) = []
          \<and> sqlite_master_triggers
               (restoreTriggers (captureTriggers target)
                  (dropTriggers (captureTriggers target) target))
              = sqlite_master_triggers target"
    by (intro conjI) (rule c, rule e, rule r)
qed

theorem triggers_restored_only_at_the_end_witness:
  "rawEmulatedPolymorphicInsertTransform example_env
      (example_source\<lparr>bis_ElementUniqueAspect := [5]\<rparr>) example_target False
     = (Inl AssertionError,
        \<lparr>main_db = example_target\<lparr>sqlite_master_triggers := []\<rparr>,
         attached = [(''source'', example_source\<lparr>bis_ElementUniqueAspect := [5]\<rparr>)],
         defer_foreign_keys = True, temp_element_remap = [], temp_codespec_remap = [],
         temp_nonElemEntity_remap = [], temp_font_remap = [], executed = []\<rparr>)
   \<and> sqlite_master_triggers (example_target\<lparr>sqlite_master_triggers := []\<rparr>) = []
   \<and> distinct (map fst (sqlite_master_triggers example_target))
   \<and> captureTriggers example_target = sqlite_master_triggers example_target
   \<and> sqlite_master_triggers
        (restoreTriggers (captureTriggers example_target)
           (dropTriggers (captureTriggers example_target) example_target))
       = sqlite_master_triggers example_target"
proof -
  have d: "distinct (map fst (sqlite_master_triggers example_target))"
    by (simp add: example_target_def)
  note failing = triggers_restored_only_at_the_end[THEN conjunct1, THEN mp, OF example_failed_run]
  note restoring = triggers_restored_only_at_the_end[THEN conjunct2, THEN mp, OF d]
  from failing have f: "sqlite_master_triggers (example_target\<lparr>sqlite_master_triggers := []\<rparr>) = []"
    by simp
  show ?thesis
    by (intro conjI) (rule example_failed_run, rule f, rule d, rule restoring[THEN conjunct1],
        rule restoring[THEN conjunct2, THEN conjunct2])
qed

text \<open>
  Claim C7 as stated says that a failed run restores the triggers before it surfaces its
  error. In the run below two readers of the multiwalk share the head \<open>5\<close>; the run ends
  with the failed assertion and the trigger of the target is gone.
\<close>

theorem triggers_left_dropped_counterexample:
  "fst (rawEmulatedPolymorphicInsertTransform example_env
          (example_source\<lparr>bis_ElementUniqueAspect := [5]\<rparr>) example_target False)
     = Inl AssertionError
   \<and> sqlite_master_triggers
         (main_db (snd (rawEmulatedPolymorphicInsertTransform example_env
                          (example_source\<lparr>bis_ElementUniqueAspect := [5]\<rparr>) example_target False)))
       = []
   \<and> sqlite_master_triggers example_target \<noteq> []"
  by (simp add: example_failed_run) (simp add: example_target_def)






section \<open>Results about the populate-and-hydrate version\<close>




text \<open>
  Claim C6 fails in the CompactRemapTable version. There \<open>codeSpecRemapSelect\<close> is
  prepared on the connection of the source, to which nothing is attached: both sides of
  its join are the CodeSpec table of the source, every source CodeSpec is joined with
  itself, and its identifier is remapped to itself. Below the source has the CodeSpec
  \<open>Foo\<close> with identifier \<open>5\<close> and the target has one of that name with identifier
  \<open>9\<close>: the remap table written to SQLite takes \<open>5\<close> to \<open>5\<close>. The same query of the
  populate-and-hydrate version, prepared on the connection of the target with the source
  attached, finds the row of the target: \<open>5\<close> is remapped to \<open>9\<close> and the target is
  left as it was.
\<close>

theorem codespec_remapped_to_itself:
  "bis_CodeSpec example_source = [\<lparr>cs_Id = 5, cs_Name = ''Foo'', cs_JsonProperties = ''{}''\<rparr>]
   \<and> \<lparr>cs_Id = 9, cs_Name = ''Foo'', cs_JsonProperties = ''{}''\<rparr> \<in> set (bis_CodeSpec example_target)
   \<and> codeSpecRemapSelect \<lparr>main_db = example_source, attached = []\<rparr>
       = Some [(\<lparr>cs_Id = 5, cs_Name = ''Foo'', cs_JsonProperties = ''{}''\<rparr>,
                Some \<lparr>cs_Id = 5, cs_Name = ''Foo'', cs_JsonProperties = ''{}''\<rparr>)]
   \<and> temp_codespec_remap
        (snd (rawEmulatedPolymorphicInsertTransform example_env example_source example_target True))
       = [Run 0 0 1, Run 5 5 1]
   \<and> table_get [Run 0 0 1, Run 5 5 1] 5 = Some 5
   \<and> sourceCodeSpecSelect (openWriteableTarget example_source example_target)
       = Some [(\<lparr>cs_Id = 5, cs_Name = ''Foo'', cs_JsonProperties = ''{}''\<rparr>,
                Some \<lparr>cs_Id = 9, cs_Name = ''Foo'', cs_JsonProperties = ''{}''\<rparr>)]
   \<and> transformCodeSpecs
         [(\<lparr>cs_Id = 5, cs_Name = ''Foo'', cs_JsonProperties = ''{}''\<rparr>,
           Some \<lparr>cs_Id = 9, cs_Name = ''Foo'', cs_JsonProperties = ''{}''\<rparr>)]
         (openWriteableTarget example_source example_target)
       = Inr ((openWriteableTarget example_source example_target)\<lparr>codespec_remap := [(5, 9)]\<rparr>)
   \<and> main_db ((openWriteableTarget example_source example_target)\<lparr>codespec_remap := [(5, 9)]\<rparr>)
       = example_target"
proof -
  have a: "bis_CodeSpec example_source = [\<lparr>cs_Id = 5, cs_Name = ''Foo'', cs_JsonProperties = ''{}''\<rparr>]"
    by (simp add: example_source_def)
  have b: "\<lparr>cs_Id = 9, cs_Name = ''Foo'', cs_JsonProperties = ''{}''\<rparr> \<in> set (bis_CodeSpec example_target)"
    by (simp add: example_target_def)
  have c: "codeSpecRemapSelect \<lparr>main_db = example_source, attached = []\<rparr>
       = Some [(\<lparr>cs_Id = 5, cs_Name = ''Foo'', cs_JsonProperties = ''{}''\<rparr>,
                Some \<lparr>cs_Id = 5, cs_Name = ''Foo'', cs_JsonProperties = ''{}''\<rparr>)]"
    by (simp add: codeSpecRemapSelect_source a leftJoinOnName_def)
  have d: "temp_codespec_remap
        (snd (rawEmulatedPolymorphicInsertTransform example_env example_source example_target True))
       = [Run 0 0 1, Run 5 5 1]"
    by (simp add: example_run)
  have e: "table_get [Run 0 0 1, Run 5 5 1] 5 = Some 5"
    by (simp add: table_get_def)
  have f: "sourceCodeSpecSelect (openWriteableTarget example_source example_target)
       = Some [(\<lparr>cs_Id = 5, cs_Name = ''Foo'', cs_JsonProperties = ''{}''\<rparr>,
                Some \<lparr>cs_Id = 9, cs_Name = ''Foo'', cs_JsonProperties = ''{}''\<rparr>)]"
    by (simp add: sourceCodeSpecSelect_def openWriteableTarget_def tableRef_bis_CodeSpec_def
        leftJoinOnName_def example_source_def example_target_def)
  have g: "transformCodeSpecs
         [(\<lparr>cs_Id = 5, cs_Name = ''Foo'', cs_JsonProperties = ''{}''\<rparr>,
           Some \<lparr>cs_Id = 9, cs_Name = ''Foo'', cs_JsonProperties = ''{}''\<rparr>)]
         (openWriteableTarget example_source example_target)
       = Inr ((openWriteableTarget example_source example_target)\<lparr>codespec_remap := [(5, 9)]\<rparr>)"
    by (simp add: openWriteableTarget_def insertRemap_def)
  have h: "main_db ((openWriteableTarget example_source example_target)\<lparr>codespec_remap := [(5, 9)]\<rparr>)
       = example_target"
    by (simp add: openWriteableTarget_def)
  show ?thesis
    by (intro conjI) (rule a, rule b, rule c, rule d, rule e, rule f, rule g, rule h)
qed

section \<open>Results about the clone context\<close>

text \<open>
  Claim C10. For the invalid identifier, \<open>findTargetElementId\<close> and
  \<open>findTargetCodeSpecId\<close> return \<open>Id64.invalid\<close> whatever their remap maps hold (the maps
  are not consulted: the result is the same for every context, also one that has a rule
  for \<open>"0"\<close>), and for any other identifier with no recorded rule they return
  \<open>Id64.invalid\<close> as well.
\<close>

theorem clone_context_invalid_short_circuit:
  "findTargetElementId ctx Id64_invalid = Id64_invalid
   \<and> findTargetCodeSpecId ctx Id64_invalid = Id64_invalid
   \<and> (elementRemaps ctx s = None \<longrightarrow> findTargetElementId ctx s = Id64_invalid)
   \<and> (codeSpecRemaps ctx s = None \<longrightarrow> findTargetCodeSpecId ctx s = Id64_invalid)"
  by (simp add: findTargetElementId_def findTargetCodeSpecId_def)

theorem clone_context_invalid_short_circuit_witness:
  "elementRemaps (remapElement ''0'' ''0x5'' \<lparr>elementRemaps = Map.empty, codeSpecRemaps = [''0'' \<mapsto> ''0x9'']\<rparr>) ''0'' = Some ''0x5''
   \<and> findTargetElementId (remapElement ''0'' ''0x5'' \<lparr>elementRemaps = Map.empty, codeSpecRemaps = [''0'' \<mapsto> ''0x9'']\<rparr>) ''0'' = ''0''
   \<and> findTargetCodeSpecId (remapElement ''0'' ''0x5'' \<lparr>elementRemaps = Map.empty, codeSpecRemaps = [''0'' \<mapsto> ''0x9'']\<rparr>) ''0'' = ''0''
   \<and> elementRemaps (remapElement ''0'' ''0x5'' \<lparr>elementRemaps = Map.empty, codeSpecRemaps = [''0'' \<mapsto> ''0x9'']\<rparr>) ''0x7'' = None
   \<and> findTargetElementId (remapElement ''0'' ''0x5'' \<lparr>elementRemaps = Map.empty, codeSpecRemaps = [''0'' \<mapsto> ''0x9'']\<rparr>) ''0x7'' = ''0''
   \<and> findTargetCodeSpecId (remapElement ''0'' ''0x5'' \<lparr>elementRemaps = Map.empty, codeSpecRemaps = [''0'' \<mapsto> ''0x9'']\<rparr>) ''0x7'' = ''0''"
  using clone_context_invalid_short_circuit
    [of "remapElement ''0'' ''0x5'' \<lparr>elementRemaps = Map.empty, codeSpecRemaps = [''0'' \<mapsto> ''0x9'']\<rparr>" "''0x7''"]
  by (simp add: remapElement_def Id64_invalid_def)

end
